theory Spec2Isabelle
  imports Complex_Main "HOL-Library.Multiset"
begin

section \<open>The random music generator (randomMusicGenerator.py)\<close>

text \<open>
  A shallow embedding of the generator. Python's unbounded integers are \<open>int\<close>, its strings
  are \<open>string\<close>, its lists are lists, its dictionaries are association lists in insertion
  order, and an event is the five-tuple the code appends:
  (absolute tick, kind, note, velocity, channel). Exceptions are values of \<open>py_error\<close>.
\<close>

subsection \<open>Errors and events\<close>

datatype py_error = IndexError | ValueError | ZeroDivisionError

type_synonym event = "int \<times> string \<times> int \<times> int \<times> int"

definition ev_tick :: "event \<Rightarrow> int" where
  "ev_tick e = fst e"

definition ev_kind :: "event \<Rightarrow> string" where
  "ev_kind e = fst (snd e)"

definition ev_note :: "event \<Rightarrow> int" where
  "ev_note e = fst (snd (snd e))"

definition ev_velocity :: "event \<Rightarrow> int" where
  "ev_velocity e = fst (snd (snd (snd e)))"

definition ev_channel :: "event \<Rightarrow> int" where
  "ev_channel e = snd (snd (snd (snd e)))"

subsection \<open>The ambient random source\<close>

text \<open>
  The module \<open>random\<close> is a global generator with a hidden state. It is modelled as an
  infinite stream of raw draws \<open>src\<close> and the position \<open>pos\<close> of the next draw; every
  library call consumes draws and returns the advanced generator. One call of
  \<open>randint\<close>, \<open>choice\<close> or \<open>random\<close> consumes one draw; \<open>shuffle\<close> of a list of
  length n consumes n - 1 draws (Fisher-Yates from the last index down).
  \<open>random()\<close> is a multiple of 2^-53 in [0, 1), kept as an exact rational.
\<close>

record rng =
  src :: "nat \<Rightarrow> nat"
  pos :: nat

definition draw :: "rng \<Rightarrow> nat \<times> rng" where
  "draw g = (src g (pos g), g\<lparr>pos := Suc (pos g)\<rparr>)"

definition random_random :: "rng \<Rightarrow> rat \<times> rng" where
  "random_random g = (let (d, g') = draw g in (of_nat (d mod 2 ^ 53) / 2 ^ 53, g'))"

text \<open>\<open>randint a b\<close> is called with \<open>a \<le> b\<close> only; the one call site whose range can be
  empty (the phrase of the melody) raises ValueError before it calls.\<close>

definition random_randint :: "int \<Rightarrow> int \<Rightarrow> rng \<Rightarrow> int \<times> rng" where
  "random_randint a b g = (let (d, g') = draw g in (a + int (d mod nat (b - a + 1)), g'))"

text \<open>\<open>choice xs\<close> is called on non-empty lists only (constant tables and the phrase, whose
  length is at least 3).\<close>

definition random_choice :: "'a list \<Rightarrow> rng \<Rightarrow> 'a \<times> rng" where
  "random_choice xs g = (let (d, g') = draw g in (xs ! (d mod length xs), g'))"

fun shuffle_from :: "nat \<Rightarrow> 'a list \<Rightarrow> rng \<Rightarrow> 'a list \<times> rng" where
  "shuffle_from 0 xs g = (xs, g)"
| "shuffle_from (Suc i) xs g =
     (let (d, g') = draw g;
          j = d mod (Suc (Suc i))
      in shuffle_from i (xs[Suc i := xs ! j, j := xs ! Suc i]) g')"

definition random_shuffle :: "'a list \<Rightarrow> rng \<Rightarrow> 'a list \<times> rng" where
  "random_shuffle xs g = shuffle_from (length xs - 1) xs g"

text \<open>The doubles written \<open>0.5\<close>, \<open>0.7\<close> and \<open>0.2\<close> in the source, as exact rationals.\<close>

definition float_0_5 :: rat where
  "float_0_5 = 1 / 2"

definition float_0_7 :: rat where
  "float_0_7 = 3152519739159347 / 2 ^ 52"

definition float_0_2 :: rat where
  "float_0_2 = 3602879701896397 / 2 ^ 54"

text \<open>\<open>int(x)\<close> on a float truncates towards zero.\<close>

definition py_int :: "rat \<Rightarrow> int" where
  "py_int x = (if 0 \<le> x then \<lfloor>x\<rfloor> else \<lceil>x\<rceil>)"

subsection \<open>Globals and helper functions\<close>

definition TICKS_PER_BEAT :: int where
  "TICKS_PER_BEAT = 480"

definition RANDOM_INSTRUMENTS :: "int list" where
  "RANDOM_INSTRUMENTS = [0, 17, 52, 56, 80, 30, 19, 73, 42, 13]"

definition DRUM_NOTES :: "int list" where
  "DRUM_NOTES = [35, 36, 38, 40, 41, 42, 43, 46, 49, 51, 57]"

definition note_map :: "(string \<times> int) list" where
  "note_map =
     [(''C'', 0), (''C#'', 1), (''Db'', 1), (''D'', 2), (''D#'', 3), (''Eb'', 3),
      (''E'', 4), (''F'', 5), (''F#'', 6), (''Gb'', 6), (''G'', 7), (''G#'', 8), (''Ab'', 8),
      (''A'', 9), (''A#'', 10), (''Bb'', 10), (''B'', 11)]"

definition note_name_to_midi :: "string \<Rightarrow> int \<Rightarrow> int" where
  "note_name_to_midi note_name octave =
     (let base = (case map_of note_map note_name of Some b \<Rightarrow> b | None \<Rightarrow> 0)
      in 12 * (octave + 1) + base)"

definition add_note :: "event list \<Rightarrow> int \<Rightarrow> int \<Rightarrow> int \<Rightarrow> int \<Rightarrow> int \<Rightarrow> event list" where
  "add_note track_events note velocity start_tick duration_ticks channel =
     (let track_events = track_events @ [(start_tick, ''note_on'', note, velocity, channel)];
          off_tick = start_tick + duration_ticks
      in track_events @ [(off_tick, ''note_off'', note, velocity, channel)])"

subsection \<open>The L-system\<close>

text \<open>One pass of the inner loop of \<open>l_system\<close>: every symbol is replaced by its rule, or
  kept when it has none, and the pieces are joined in order.\<close>

definition rewrite_pass :: "(char \<times> string) list \<Rightarrow> string \<Rightarrow> string" where
  "rewrite_pass rules cur =
     concat (map (\<lambda>c. case map_of rules c of Some s \<Rightarrow> s | None \<Rightarrow> [c]) cur)"

fun l_system_loop :: "(char \<times> string) list \<Rightarrow> nat \<Rightarrow> string \<Rightarrow> string" where
  "l_system_loop rules 0 cur = cur"
| "l_system_loop rules (Suc n) cur = l_system_loop rules n (rewrite_pass rules cur)"

definition l_system :: "string \<Rightarrow> (char \<times> string) list \<Rightarrow> int \<Rightarrow> string" where
  "l_system axiom rules depth = l_system_loop rules (nat depth) axiom"

definition lsystem_rules :: "(char \<times> string) list" where
  "lsystem_rules = [(CHR ''A'', ''AB''), (CHR ''B'', ''A'')]"

definition lsystem_durations :: "int \<Rightarrow> rat list" where
  "lsystem_durations depth =
     (let out = l_system ''A'' lsystem_rules depth
      in map (\<lambda>c. if c = CHR ''A'' then 1 else 1 / 2) out)"

subsection \<open>Random chord progressions\<close>

definition note_names :: "string list" where
  "note_names = [''C'', ''C#'', ''D'', ''D#'', ''E'', ''F'', ''F#'', ''G'', ''G#'', ''A'', ''A#'', ''B'']"

definition possible_modes :: "(string \<times> int list) list" where
  "possible_modes =
     [(''major'', [0, 2, 4, 5, 7, 9, 11]),
      (''minor'', [0, 2, 3, 5, 7, 8, 10]),
      (''phrygian'', [0, 1, 3, 5, 7, 8, 10]),
      (''lydian'', [0, 2, 4, 6, 7, 9, 11])]"

text \<open>The decimal text of an integer, as an f-string prints it.\<close>

fun str_nat :: "nat \<Rightarrow> string" where
  "str_nat n =
     (if n < 10 then [''0123456789'' ! n]
      else str_nat (n div 10) @ [''0123456789'' ! (n mod 10)])"

declare str_nat.simps [simp del]

definition str_int :: "int \<Rightarrow> string" where
  "str_int i = (if i < 0 then ''-'' @ str_nat (nat (- i)) else str_nat (nat i))"

definition build_triads :: "int \<Rightarrow> rng \<Rightarrow> int list \<times> rng" where
  "build_triads base_note_midi g =
     (let (r, g) = random_random g
      in if r < float_0_5
         then ([base_note_midi, base_note_midi + 4, base_note_midi + 7], g)
         else ([base_note_midi, base_note_midi + 3, base_note_midi + 7], g))"

fun chords_loop :: "nat \<Rightarrow> int list \<Rightarrow> int \<Rightarrow> int list list \<Rightarrow> rng \<Rightarrow> int list list \<times> rng" where
  "chords_loop 0 intervals base_root_midi chords g = (chords, g)"
| "chords_loop (Suc n) intervals base_root_midi chords g =
     (let (interval, g) = random_choice intervals g;
          chord_root = base_root_midi + interval;
          (triad, g) = build_triads chord_root g
      in chords_loop n intervals base_root_midi (chords @ [triad]) g)"

text \<open>The mode is chosen among the keys of \<open>possible_modes\<close> and then looked up; the keys
  are distinct, so this is the entry at the chosen index.\<close>

definition get_random_chord_progression :: "int \<Rightarrow> rng \<Rightarrow> (int list list \<times> string) \<times> rng" where
  "get_random_chord_progression num_chords g =
     (let (root_choice, g) = random_choice note_names g;
          (octave_choice, g) = random_randint 2 5 g;
          ((mode_name, intervals), g) = random_choice possible_modes g;
          base_root_midi = note_name_to_midi root_choice octave_choice;
          (chords, g) = chords_loop (nat num_chords) intervals base_root_midi [] g
      in ((chords, root_choice @ str_int octave_choice @ '' '' @ mode_name), g))"

subsection \<open>Drums\<close>

text \<open>The double written \<open>0.1\<close>, and the random offset of a hit: the float products
  \<open>random() * beats_per_measure\<close> and \<open>offset * ticks_per_beat\<close> are taken exactly, without
  the rounding of doubles, before \<open>int\<close> truncates.\<close>

definition float_0_1 :: rat where
  "float_0_1 = 3602879701896397 / 2 ^ 55"

fun drum_hits :: "nat \<Rightarrow> int \<Rightarrow> int \<Rightarrow> int \<Rightarrow> event list \<Rightarrow> rng \<Rightarrow> event list \<times> rng" where
  "drum_hits 0 measure_start beats_per_measure ticks_per_beat track_events g = (track_events, g)"
| "drum_hits (Suc n) measure_start beats_per_measure ticks_per_beat track_events g =
     (let (random_drum_note, g) = random_choice DRUM_NOTES g;
          (r, g) = random_random g;
          random_beat_offset = r * of_int beats_per_measure;
          start_t = measure_start + py_int (random_beat_offset * of_int ticks_per_beat);
          dur_t = py_int (float_0_1 * of_int ticks_per_beat);
          (velocity, g) = random_randint 40 120 g;
          track_events = add_note track_events random_drum_note velocity start_t dur_t 9
      in drum_hits n measure_start beats_per_measure ticks_per_beat track_events g)"

fun drum_measures :: "int list \<Rightarrow> int \<Rightarrow> int \<Rightarrow> event list \<Rightarrow> rng \<Rightarrow> event list \<times> rng" where
  "drum_measures [] beats_per_measure ticks_per_beat track_events g = (track_events, g)"
| "drum_measures (measure_idx # rest) beats_per_measure ticks_per_beat track_events g =
     (let measure_start = measure_idx * beats_per_measure * ticks_per_beat;
          track_events =
            (if beats_per_measure = 4
             then let track_events = add_note track_events 36 100 measure_start
                                       (py_int (float_0_1 * of_int ticks_per_beat)) 9;
                      snare_beat_2 = measure_start + 2 * ticks_per_beat
                  in add_note track_events 38 100 snare_beat_2
                       (py_int (float_0_1 * of_int ticks_per_beat)) 9
             else track_events);
          (random_hits, g) = random_randint 2 8 g;
          (track_events, g) =
            drum_hits (nat random_hits) measure_start beats_per_measure ticks_per_beat track_events g
      in drum_measures rest beats_per_measure ticks_per_beat track_events g)"

definition create_drum_track_chaos :: "int \<Rightarrow> int \<Rightarrow> int \<Rightarrow> rng \<Rightarrow> event list \<times> rng" where
  "create_drum_track_chaos num_measures beats_per_measure ticks_per_beat g =
     drum_measures (map int [0..<nat num_measures]) beats_per_measure ticks_per_beat [] g"

subsection \<open>Bass\<close>

text \<open>\<open>beats_per_chord\<close> is the float \<open>float(beats_per_measure)\<close>; the product with the
  integer resolution is taken exactly.\<close>

definition chord_length_ticks :: "rat \<Rightarrow> int \<Rightarrow> int" where
  "chord_length_ticks beats_per_chord ticks_per_beat = py_int (beats_per_chord * of_int ticks_per_beat)"

definition bass_sub_tick_length :: "int \<Rightarrow> int \<Rightarrow> int" where
  "bass_sub_tick_length chord_len subdivs =
     (if subdivs > 0 then chord_len div subdivs else chord_len)"

fun bass_slots :: "nat \<Rightarrow> int \<Rightarrow> int \<Rightarrow> int \<Rightarrow> event list \<Rightarrow> int \<Rightarrow> rng \<Rightarrow> event list \<times> rng" where
  "bass_slots 0 chord_root chord_fifth sub_tick_length track_events t_start g = (track_events, g)"
| "bass_slots (Suc n) chord_root chord_fifth sub_tick_length track_events t_start g =
     (let (r, g) = random_random g;
          note = (if r < float_0_7 then chord_root else chord_fifth);
          (r2, g) = random_random g;
          (shift, g) = (if r2 < float_0_5 then random_choice [- 12, 0, 12] g else (0, g));
          note = note + shift;
          (velocity, g) = random_randint 50 100 g;
          track_events = add_note track_events note velocity t_start sub_tick_length 1;
          t_start = t_start + sub_tick_length
      in bass_slots n chord_root chord_fifth sub_tick_length track_events t_start g)"

text \<open>The body of the loop over the chords, after the subdivision count is drawn.\<close>

definition bass_chord :: "int \<Rightarrow> int \<Rightarrow> int \<Rightarrow> int \<Rightarrow> event list \<Rightarrow> int \<Rightarrow> rng \<Rightarrow> event list \<times> rng" where
  "bass_chord subdivs chord_root chord_fifth chord_len track_events current_time g =
     (let sub_tick_length = bass_sub_tick_length chord_len subdivs;
          t_start = current_time
      in bass_slots (nat subdivs) chord_root chord_fifth sub_tick_length track_events t_start g)"

fun bass_chords :: "int list list \<Rightarrow> rat \<Rightarrow> int \<Rightarrow> event list \<Rightarrow> int \<Rightarrow> rng \<Rightarrow> py_error + (event list \<times> rng)" where
  "bass_chords [] beats_per_chord ticks_per_beat track_events current_time g = Inr (track_events, g)"
| "bass_chords (chord # rest) beats_per_chord ticks_per_beat track_events current_time g =
     (case chord of
        chord_root # _ # chord_fifth # _ \<Rightarrow>
          (let chord_len = chord_length_ticks beats_per_chord ticks_per_beat;
               (subdivs, g) = random_randint 1 5 g;
               (track_events, g) =
                 bass_chord subdivs chord_root chord_fifth chord_len track_events current_time g;
               current_time = current_time + chord_len
           in bass_chords rest beats_per_chord ticks_per_beat track_events current_time g)
      | _ \<Rightarrow> Inl IndexError)"

definition create_bass_track_chaos :: "int list list \<Rightarrow> rat \<Rightarrow> int \<Rightarrow> rng \<Rightarrow> py_error + (event list \<times> rng)" where
  "create_bass_track_chaos chords beats_per_chord ticks_per_beat g =
     bass_chords chords beats_per_chord ticks_per_beat [] 0 g"

subsection \<open>Harmony\<close>

fun harmony_notes :: "int list \<Rightarrow> int \<Rightarrow> int \<Rightarrow> event list \<Rightarrow> int \<Rightarrow> rng \<Rightarrow> event list \<times> int \<times> rng" where
  "harmony_notes [] n_notes press_length track_events time_ptr g = (track_events, time_ptr, g)"
| "harmony_notes (note # rest) n_notes press_length track_events time_ptr g =
     (let (velocity, g) = random_randint 40 90 g;
          note_dur = press_length div n_notes;
          track_events = add_note track_events note velocity time_ptr note_dur 2;
          time_ptr = time_ptr + note_dur
      in harmony_notes rest n_notes press_length track_events time_ptr g)"

fun harmony_presses :: "nat \<Rightarrow> int list \<Rightarrow> int \<Rightarrow> event list \<Rightarrow> int \<Rightarrow> rng \<Rightarrow> event list \<times> rng" where
  "harmony_presses 0 chord press_length track_events time_ptr g = (track_events, g)"
| "harmony_presses (Suc n) chord press_length track_events time_ptr g =
     (let (chord_notes, g) = random_shuffle chord g;
          (track_events, time_ptr, g) =
            harmony_notes chord_notes (int (length chord_notes)) press_length track_events time_ptr g
      in harmony_presses n chord press_length track_events time_ptr g)"

text \<open>The body of the loop over the chords, after the press count is drawn. The division
  by the press count is not guarded.\<close>

definition harmony_chord :: "int \<Rightarrow> int list \<Rightarrow> int \<Rightarrow> event list \<Rightarrow> int \<Rightarrow> rng \<Rightarrow> py_error + (event list \<times> rng)" where
  "harmony_chord presses chord chord_len track_events current_time g =
     (if presses = 0 then Inl ZeroDivisionError
      else let press_length = chord_len div presses;
               time_ptr = current_time
           in Inr (harmony_presses (nat presses) chord press_length track_events time_ptr g))"

fun harmony_chords :: "int list list \<Rightarrow> rat \<Rightarrow> int \<Rightarrow> event list \<Rightarrow> int \<Rightarrow> rng \<Rightarrow> py_error + (event list \<times> rng)" where
  "harmony_chords [] beats_per_chord ticks_per_beat track_events current_time g = Inr (track_events, g)"
| "harmony_chords (chord # rest) beats_per_chord ticks_per_beat track_events current_time g =
     (let chord_len = chord_length_ticks beats_per_chord ticks_per_beat;
          (presses, g) = random_randint 1 3 g
      in case harmony_chord presses chord chord_len track_events current_time g of
           Inl e \<Rightarrow> Inl e
         | Inr (track_events, g) \<Rightarrow>
             (let current_time = current_time + chord_len
              in harmony_chords rest beats_per_chord ticks_per_beat track_events current_time g))"

definition create_harmony_track_chaos :: "int list list \<Rightarrow> rat \<Rightarrow> int \<Rightarrow> rng \<Rightarrow> py_error + (event list \<times> rng)" where
  "create_harmony_track_chaos chords beats_per_chord ticks_per_beat g =
     harmony_chords chords beats_per_chord ticks_per_beat [] 0 g"

subsection \<open>Melody\<close>

text \<open>List indexing as Python does it: a negative index counts from the end, and an index
  out of range raises IndexError.\<close>

definition py_index :: "'a list \<Rightarrow> int \<Rightarrow> py_error + 'a" where
  "py_index xs i =
     (let j = (if i < 0 then i + int (length xs) else i)
      in if 0 \<le> j \<and> j < int (length xs) then Inr (xs ! nat j) else Inl IndexError)"

text \<open>The list comprehension that draws the phrase; \<open>randint(0, len(scale_notes) - 1)\<close>
  raises ValueError on an empty scale.\<close>

fun phrase_loop :: "nat \<Rightarrow> int list \<Rightarrow> int list \<Rightarrow> rng \<Rightarrow> py_error + (int list \<times> rng)" where
  "phrase_loop 0 scale_notes phrase g = Inr (phrase, g)"
| "phrase_loop (Suc n) scale_notes phrase g =
     (if int (length scale_notes) - 1 < 0 then Inl ValueError
      else let (i, g) = random_randint 0 (int (length scale_notes) - 1) g
           in phrase_loop n scale_notes (phrase @ [i]) g)"

definition melody_sub_tick :: "int \<Rightarrow> int \<Rightarrow> int" where
  "melody_sub_tick chord_len notes_in_this_chord =
     (if notes_in_this_chord \<noteq> 0 then chord_len div notes_in_this_chord else chord_len)"

text \<open>The octave shift of one melody note: a first check, and a second one (a second draw)
  only when the first fails.\<close>

definition melody_shift :: "int \<Rightarrow> rng \<Rightarrow> int \<times> rng" where
  "melody_shift note g =
     (let (r, g) = random_random g
      in if r < float_0_2 then (note + 12, g)
         else let (r2, g) = random_random g
              in if r2 < float_0_2 then (note - 12, g) else (note, g))"

text \<open>One pass of the inner loop of the melody. The state is the event list, the time
  cursor, the L-system index and the random source.\<close>

definition melody_note ::
  "int list \<Rightarrow> int list \<Rightarrow> rat list \<Rightarrow> int \<Rightarrow> int \<Rightarrow> event list \<Rightarrow> int \<Rightarrow> nat \<Rightarrow> rng
   \<Rightarrow> py_error + (event list \<times> int \<times> nat \<times> rng)" where
  "melody_note phrase scale_notes durations_list sub_tick ticks_per_beat track_events current_time lsys_idx g =
     (if phrase = [] then Inl IndexError
      else let (note_idx, g) = random_choice phrase g
           in case py_index scale_notes note_idx of
                Inl e \<Rightarrow> Inl e
              | Inr note \<Rightarrow>
                  (let (note, g) = melody_shift note g
                   in if durations_list = [] then Inl ZeroDivisionError
                      else let dur_beats = durations_list ! (lsys_idx mod length durations_list);
                               lsys_idx = lsys_idx + 1;
                               note_dur_ticks = py_int (dur_beats * of_int ticks_per_beat);
                               duration = min note_dur_ticks sub_tick;
                               (velocity, g) = random_randint 60 127 g;
                               track_events = add_note track_events note velocity current_time duration 0;
                               current_time = current_time + duration
                           in Inr (track_events, current_time, lsys_idx, g)))"

fun melody_notes ::
  "nat \<Rightarrow> int list \<Rightarrow> int list \<Rightarrow> rat list \<Rightarrow> int \<Rightarrow> int \<Rightarrow> event list \<Rightarrow> int \<Rightarrow> nat \<Rightarrow> rng
   \<Rightarrow> py_error + (event list \<times> int \<times> nat \<times> rng)" where
  "melody_notes 0 phrase scale_notes durations_list sub_tick ticks_per_beat track_events current_time lsys_idx g =
     Inr (track_events, current_time, lsys_idx, g)"
| "melody_notes (Suc n) phrase scale_notes durations_list sub_tick ticks_per_beat track_events current_time lsys_idx g =
     (case melody_note phrase scale_notes durations_list sub_tick ticks_per_beat
             track_events current_time lsys_idx g of
        Inl e \<Rightarrow> Inl e
      | Inr (track_events, current_time, lsys_idx, g) \<Rightarrow>
          melody_notes n phrase scale_notes durations_list sub_tick ticks_per_beat
            track_events current_time lsys_idx g)"

fun melody_chords ::
  "int list list \<Rightarrow> int list \<Rightarrow> int list \<Rightarrow> rat list \<Rightarrow> rat \<Rightarrow> int \<Rightarrow> event list \<Rightarrow> int \<Rightarrow> nat \<Rightarrow> rng
   \<Rightarrow> py_error + (event list \<times> rng)" where
  "melody_chords [] phrase scale_notes durations_list beats_per_chord ticks_per_beat
     track_events current_time lsys_idx g = Inr (track_events, g)"
| "melody_chords (chord # rest) phrase scale_notes durations_list beats_per_chord ticks_per_beat
     track_events current_time lsys_idx g =
     (let chord_len = chord_length_ticks beats_per_chord ticks_per_beat;
          (notes_in_this_chord, g) = random_randint 2 6 g;
          sub_tick = melody_sub_tick chord_len notes_in_this_chord
      in case melody_notes (nat notes_in_this_chord) phrase scale_notes durations_list sub_tick
                ticks_per_beat track_events current_time lsys_idx g of
           Inl e \<Rightarrow> Inl e
         | Inr (track_events, current_time, lsys_idx, g) \<Rightarrow>
             melody_chords rest phrase scale_notes durations_list beats_per_chord ticks_per_beat
               track_events current_time lsys_idx g)"

definition create_melody_track_chaos ::
  "int list list \<Rightarrow> int list \<Rightarrow> rat \<Rightarrow> int \<Rightarrow> rng \<Rightarrow> py_error + (event list \<times> rng)" where
  "create_melody_track_chaos chords scale_notes beats_per_chord ticks_per_beat g =
     (let (depth, g) = random_randint 2 5 g;
          durations_list = lsystem_durations depth;
          (phrase_length, g) = random_randint 3 7 g
      in case phrase_loop (nat phrase_length) scale_notes [] g of
           Inl e \<Rightarrow> Inl e
         | Inr (phrase, g) \<Rightarrow>
             melody_chords chords phrase scale_notes durations_list beats_per_chord ticks_per_beat
               [] 0 0 g)"

subsection \<open>Combining and writing\<close>

text \<open>The messages of a MIDI track. A note message holds its type, note, velocity, delta
  time and channel. The MIDI library's own checks of the message fields and the writing of
  the file are outside the model: the result is the file object that is saved.\<close>

datatype message =
    Message string int int int int
  | ProgramChange int int int
  | SetTempo int int
  | EndOfTrack int

record midi_file =
  ticks_per_beat :: int
  tracks :: "message list list"

definition add_program_change :: "message list \<Rightarrow> int \<Rightarrow> int \<Rightarrow> int \<Rightarrow> message list" where
  "add_program_change track program_num channel time = track @ [ProgramChange program_num channel time]"

text \<open>\<open>sorted(events, key=lambda e: e[0])\<close> is a stable sort by the tick.\<close>

definition events_sorted :: "event list \<Rightarrow> event list" where
  "events_sorted events = sort_key (\<lambda>e. fst e) events"

fun delta_loop :: "event list \<Rightarrow> int \<Rightarrow> message list \<Rightarrow> message list" where
  "delta_loop [] prev_time track = track"
| "delta_loop ((abs_time, ev_type, note, vel, chan) # rest) prev_time track =
     (let delta = abs_time - prev_time;
          msg = (if ev_type = ''note_on'' then Message ''note_on'' note vel delta chan
                 else Message ''note_off'' note vel delta chan);
          track = track @ [msg];
          prev_time = abs_time
      in delta_loop rest prev_time track)"

definition write_track :: "string \<Rightarrow> event list \<Rightarrow> rng \<Rightarrow> message list \<times> rng" where
  "write_track name events g =
     (let track = [];
          (track, g) =
            (if name = ''Drums'' then (add_program_change track 0 9 0, g)
             else let (program_num, g) = random_choice RANDOM_INSTRUMENTS g;
                      chan = 0;
                      chan = (if name = ''Bass'' then 1
                              else if name = ''Harmony'' then 2
                              else if name = ''Melody'' then 0 else chan)
                  in (add_program_change track program_num chan 0, g));
          track = delta_loop (events_sorted events) 0 track
      in (track @ [EndOfTrack 0], g))"

fun tracks_loop :: "(string \<times> event list) list \<Rightarrow> message list list \<Rightarrow> rng \<Rightarrow> message list list \<times> rng" where
  "tracks_loop [] mid_tracks g = (mid_tracks, g)"
| "tracks_loop ((name, events) # rest) mid_tracks g =
     (let (track, g) = write_track name events g
      in tracks_loop rest (mid_tracks @ [track]) g)"

definition combine_and_write_midi ::
  "(string \<times> event list) list \<Rightarrow> int \<Rightarrow> rng \<Rightarrow> py_error + (midi_file \<times> rng)" where
  "combine_and_write_midi tracks_dict tempo_bpm g =
     (if tempo_bpm = 0 then Inl ZeroDivisionError
      else let microseconds_per_beat = py_int (60000000 / of_int tempo_bpm);
               tempo_track = [SetTempo microseconds_per_beat 0];
               (mid_tracks, g) = tracks_loop tracks_dict [tempo_track] g
           in Inr (\<lparr>ticks_per_beat = TICKS_PER_BEAT, tracks = mid_tracks\<rparr>, g))"

subsection \<open>The run\<close>

definition scale_mode_table :: "int list list" where
  "scale_mode_table =
     [[0, 2, 4, 5, 7, 9, 11], [0, 2, 3, 5, 7, 8, 10], [0, 1, 3, 5, 7, 8, 10],
      [0, 2, 4, 6, 7, 9, 11], [0, 2, 4, 7, 9]]"

definition build_scale_notes :: "int \<Rightarrow> int list \<Rightarrow> int list" where
  "build_scale_notes random_root_midi scale_mode_intervals =
     concat (map (\<lambda>oct_shift. map (\<lambda>interval. random_root_midi + interval + 12 * oct_shift)
                                 scale_mode_intervals) [0, 1])"

text \<open>Steps 4 to 12 of the script, from the three scalars the prompts supply. The result is
  the dictionary of the four event lists and the file object.\<close>

definition run :: "int \<Rightarrow> int \<Rightarrow> int \<Rightarrow> rng \<Rightarrow> py_error + ((string \<times> event list) list \<times> midi_file)" where
  "run total_measures beats_per_measure user_tempo g =
     (let ((chords, scale_info), g) = get_random_chord_progression total_measures g;
          beats_per_chord = of_int beats_per_measure;
          (drum_track, g) = create_drum_track_chaos total_measures beats_per_measure TICKS_PER_BEAT g
      in case create_bass_track_chaos chords beats_per_chord TICKS_PER_BEAT g of
           Inl e \<Rightarrow> Inl e
         | Inr (bass_track, g) \<Rightarrow>
        (case create_harmony_track_chaos chords beats_per_chord TICKS_PER_BEAT g of
           Inl e \<Rightarrow> Inl e
         | Inr (harmony_track, g) \<Rightarrow>
        (let (scale_mode_intervals, g) = random_choice scale_mode_table g;
             (random_root_name, g) = random_choice note_names g;
             (random_root_oct, g) = random_randint 3 5 g;
             random_root_midi = note_name_to_midi random_root_name random_root_oct;
             scale_notes = build_scale_notes random_root_midi scale_mode_intervals
         in case create_melody_track_chaos chords scale_notes beats_per_chord TICKS_PER_BEAT g of
              Inl e \<Rightarrow> Inl e
            | Inr (melody_track, g) \<Rightarrow>
           (let tracks = [(''Drums'', drum_track), (''Bass'', bass_track),
                          (''Harmony'', harmony_track), (''Melody'', melody_track)]
            in case combine_and_write_midi tracks user_tempo g of
                 Inl e \<Rightarrow> Inl e
               | Inr (mid, g) \<Rightarrow> Inr (tracks, mid)))))"

subsection \<open>Notions used to state properties\<close>


text \<open>Every event of a track has its pitch between two bounds.\<close>

definition notes_within :: "int \<Rightarrow> int \<Rightarrow> event list \<Rightarrow> bool" where
  "notes_within lo hi events = list_all (\<lambda>e. lo \<le> ev_note e \<and> ev_note e \<le> hi) events"


text \<open>The delta time a message carries, and the note messages of a track.\<close>

fun msg_time :: "message \<Rightarrow> int" where
  "msg_time (Message ty note vel time chan) = time"
| "msg_time (ProgramChange program chan time) = time"
| "msg_time (SetTempo tempo time) = time"
| "msg_time (EndOfTrack time) = time"

fun is_note_message :: "message \<Rightarrow> bool" where
  "is_note_message (Message ty note vel time chan) = True"
| "is_note_message m = False"

text \<open>The message that stands for an event, given the delta time.\<close>

definition event_message :: "event \<Rightarrow> int \<Rightarrow> message" where
  "event_message e delta =
     Message (if ev_kind e = ''note_on'' then ''note_on'' else ''note_off'')
       (ev_note e) (ev_velocity e) delta (ev_channel e)"

text \<open>Re-accumulating delta times from a cursor gives absolute ticks.\<close>

fun accumulate :: "int \<Rightarrow> int list \<Rightarrow> int list" where
  "accumulate cursor [] = []"
| "accumulate cursor (d # ds) = (cursor + d) # accumulate (cursor + d) ds"

text \<open>Two random sources have the same draws to come when their streams agree from their
  positions onwards.\<close>

definition same_draws :: "rng \<Rightarrow> rng \<Rightarrow> bool" where
  "same_draws g1 g2 = (\<forall>k. src g1 (pos g1 + k) = src g2 (pos g2 + k))"

section \<open>Facts about the random source\<close>

lemma draw_eval: "draw \<lparr>src = s, pos = p\<rparr> = (s p, \<lparr>src = s, pos = Suc p\<rparr>)"
  by (simp add: draw_def)

lemma random_choice_in: "xs \<noteq> [] \<Longrightarrow> fst (random_choice xs g) \<in> set xs"
  by (simp add: random_choice_def split_beta)

lemma random_randint_range:
  "a \<le> b \<Longrightarrow> a \<le> fst (random_randint a b g) \<and> fst (random_randint a b g) \<le> b"
proof -
  assume ab: "a \<le> b"
  have "fst (draw g) mod nat (b - a + 1) < nat (b - a + 1)"
    using ab by simp
  then have "int (fst (draw g) mod nat (b - a + 1)) < b - a + 1"
    using ab by linarith
  then show ?thesis
    by (simp add: random_randint_def split_beta)
qed

text \<open>An integer number of beats gives an exact chord length.\<close>

lemma chord_length_ticks_int: "chord_length_ticks (of_int b) t = b * t"
proof -
  have "(of_int b :: rat) * of_int t = of_int (b * t)" by simp
  then show ?thesis
    unfolding chord_length_ticks_def py_int_def by (simp only: floor_of_int ceiling_of_int if_cancel)
qed

lemma chord_length_ticks_numeral [simp]: "chord_length_ticks (numeral b) t = numeral b * t"
  using chord_length_ticks_int [of "numeral b" t] by simp



text \<open>A repetition whose count is a numeral unfolds one pass at a time.\<close>

lemmas chords_loop_numeral = chords_loop.simps(2) [of "pred_numeral k", folded numeral_eq_Suc] for k

lemmas drum_hits_numeral = drum_hits.simps(2) [of "pred_numeral k", folded numeral_eq_Suc] for k

lemmas bass_slots_numeral = bass_slots.simps(2) [of "pred_numeral k", folded numeral_eq_Suc] for k



lemmas phrase_loop_numeral = phrase_loop.simps(2) [of "pred_numeral k", folded numeral_eq_Suc] for k

lemmas melody_notes_numeral = melody_notes.simps(2) [of "pred_numeral k", folded numeral_eq_Suc] for k

lemmas l_system_loop_numeral = l_system_loop.simps(2) [of _ "pred_numeral k", folded numeral_eq_Suc] for k

section \<open>Generators that cannot fail\<close>

lemma phrase_loop_ok:
  assumes "scale_notes \<noteq> []"
  shows "\<exists>phrase' g'. phrase_loop n scale_notes phrase g = Inr (phrase', g')
           \<and> length phrase' = length phrase + n
           \<and> (set phrase \<subseteq> {0 ..< int (length scale_notes)}
                \<longrightarrow> set phrase' \<subseteq> {0 ..< int (length scale_notes)})"
proof (induction n arbitrary: phrase g)
  case 0
  then show ?case by simp
next
  case (Suc n)
  let ?r = "random_randint 0 (int (length scale_notes) - 1) g"
  have pos: "0 \<le> int (length scale_notes) - 1"
    using assms by (cases scale_notes) simp_all
  from random_randint_range [OF pos, of g]
  have rng: "0 \<le> fst ?r" "fst ?r < int (length scale_notes)" by simp_all
  from Suc.IH [of "phrase @ [fst ?r]" "snd ?r"] obtain phrase' g' where
    IH: "phrase_loop n scale_notes (phrase @ [fst ?r]) (snd ?r) = Inr (phrase', g')"
        "length phrase' = length (phrase @ [fst ?r]) + n"
        "set (phrase @ [fst ?r]) \<subseteq> {0 ..< int (length scale_notes)}
           \<longrightarrow> set phrase' \<subseteq> {0 ..< int (length scale_notes)}"
    by blast
  have "phrase_loop (Suc n) scale_notes phrase g = Inr (phrase', g')"
    using pos IH(1) by (simp add: split_beta)
  moreover have "length phrase' = length phrase + Suc n"
    using IH(2) by simp
  moreover have "set phrase \<subseteq> {0 ..< int (length scale_notes)}
                \<longrightarrow> set phrase' \<subseteq> {0 ..< int (length scale_notes)}"
    using IH(3) rng by simp
  ultimately show ?case by blast
qed

lemma harmony_chord_ok:
  "presses \<noteq> 0 \<Longrightarrow> \<exists>r. harmony_chord presses chord chord_len track_events current_time g = Inr r"
  by (simp add: harmony_chord_def Let_def)

lemma harmony_chords_ok:
  "\<exists>r. harmony_chords chords bpc tpb track_events current_time g = Inr r"
proof (induction chords arbitrary: track_events current_time g)
  case Nil
  then show ?case by simp
next
  case (Cons chord rest)
  let ?p = "random_randint 1 3 g"
  have "1 \<le> fst ?p"
    using random_randint_range [of 1 3 g] by simp
  then have ne: "fst ?p \<noteq> 0" by simp
  from harmony_chord_ok [OF ne] obtain tr g' where
    hc: "harmony_chord (fst ?p) chord (chord_length_ticks bpc tpb)
           track_events current_time (snd ?p) = Inr (tr, g')"
    by fastforce
  from Cons.IH [of tr "current_time + chord_length_ticks bpc tpb" g']
  show ?case
    by (simp add: split_beta Let_def hc)
qed

section \<open>Facts about the L-system\<close>

lemma rewrite_pass_append:
  "rewrite_pass rules (xs @ ys) = rewrite_pass rules xs @ rewrite_pass rules ys"
  by (simp add: rewrite_pass_def)

lemma l_system_loop_append:
  "l_system_loop rules n (xs @ ys) = l_system_loop rules n xs @ l_system_loop rules n ys"
  by (induction n arbitrary: xs ys) (simp_all add: rewrite_pass_append)

lemma rewrite_A: "rewrite_pass lsystem_rules ''A'' = ''AB''"
  by (simp add: rewrite_pass_def lsystem_rules_def)

lemma rewrite_B: "rewrite_pass lsystem_rules ''B'' = ''A''"
  by (simp add: rewrite_pass_def lsystem_rules_def)

lemma l_system_loop_fib:
  "l_system_loop lsystem_rules (Suc (Suc n)) ''A'' =
   l_system_loop lsystem_rules (Suc n) ''A'' @ l_system_loop lsystem_rules n ''A''"
proof -
  have "l_system_loop lsystem_rules (Suc (Suc n)) ''A'' = l_system_loop lsystem_rules (Suc n) (''A'' @ ''B'')"
    by (simp add: rewrite_A del: l_system_loop.simps(2)) (simp add: rewrite_A)
  also have "\<dots> = l_system_loop lsystem_rules (Suc n) ''A'' @ l_system_loop lsystem_rules (Suc n) ''B''"
    by (rule l_system_loop_append)
  also have "l_system_loop lsystem_rules (Suc n) ''B'' = l_system_loop lsystem_rules n ''A''"
    by (simp add: rewrite_B)
  finally show ?thesis .
qed

lemma rewrite_pass_alphabet:
  "set cur \<subseteq> {CHR ''A'', CHR ''B''} \<Longrightarrow> set (rewrite_pass lsystem_rules cur) \<subseteq> {CHR ''A'', CHR ''B''}"
  by (induction cur) (auto simp: rewrite_pass_def lsystem_rules_def)

lemma l_system_loop_alphabet:
  "set cur \<subseteq> {CHR ''A'', CHR ''B''} \<Longrightarrow> set (l_system_loop lsystem_rules n cur) \<subseteq> {CHR ''A'', CHR ''B''}"
  by (induction n arbitrary: cur) (simp_all add: rewrite_pass_alphabet)

lemma rewrite_pass_nonempty:
  "set cur \<subseteq> {CHR ''A'', CHR ''B''} \<Longrightarrow> cur \<noteq> [] \<Longrightarrow> rewrite_pass lsystem_rules cur \<noteq> []"
  by (cases cur) (auto simp: rewrite_pass_def lsystem_rules_def)

lemma l_system_loop_nonempty:
  "set cur \<subseteq> {CHR ''A'', CHR ''B''} \<Longrightarrow> cur \<noteq> [] \<Longrightarrow> l_system_loop lsystem_rules n cur \<noteq> []"
  by (induction n arbitrary: cur) (simp_all add: rewrite_pass_alphabet rewrite_pass_nonempty)

lemma lsystem_durations_nonempty: "lsystem_durations depth \<noteq> []"
  by (simp add: lsystem_durations_def l_system_def l_system_loop_nonempty)

section \<open>The tick span of the Bass and Harmony tracks\<close>









lemma shuffle_from_length: "length (fst (shuffle_from i xs g)) = length xs"
  by (induction i arbitrary: xs g) (simp_all add: split_beta Let_def)

lemma random_shuffle_length: "length (fst (random_shuffle xs g)) = length xs"
  by (simp add: random_shuffle_def shuffle_from_length)








section \<open>Delta times of a written track\<close>

lemma delta_loop_acc: "delta_loop es p track = track @ delta_loop es p []"
proof (induction es arbitrary: p track)
  case Nil
  then show ?case by simp
next
  case (Cons e es)
  obtain t k n v c where e: "e = (t, k, n, v, c)" by (cases e)
  show ?case
    unfolding e delta_loop.simps Let_def
    by (subst Cons.IH, subst (2) Cons.IH) simp
qed

lemma delta_loop_Cons:
  "delta_loop (e # es) p [] = event_message e (ev_tick e - p) # delta_loop es (ev_tick e) []"
proof -
  obtain t k n v c where e: "e = (t, k, n, v, c)" by (cases e)
  show ?thesis
    unfolding e delta_loop.simps Let_def
    by (subst delta_loop_acc)
       (simp add: event_message_def ev_tick_def ev_kind_def ev_note_def ev_velocity_def ev_channel_def)
qed

lemma delta_loop_Nil: "delta_loop [] p [] = []"
  by simp

lemma delta_loop_length: "length (delta_loop es p []) = length es"
  by (induction es arbitrary: p) (simp_all add: delta_loop_Cons del: delta_loop.simps(2))

lemma delta_loop_all_notes: "filter is_note_message (delta_loop es p []) = delta_loop es p []"
  by (induction es arbitrary: p) (simp_all add: delta_loop_Cons event_message_def del: delta_loop.simps(2))

lemma delta_loop_nth:
  "i < length es \<Longrightarrow>
   delta_loop es p [] ! i =
     event_message (es ! i) (ev_tick (es ! i) - (if i = 0 then p else ev_tick (es ! (i - 1))))"
proof (induction es arbitrary: p i)
  case Nil
  then show ?case by simp
next
  case (Cons e es)
  show ?case
  proof (cases i)
    case 0
    then show ?thesis by (simp add: delta_loop_Cons del: delta_loop.simps(2))
  next
    case (Suc j)
    with Cons.prems have j: "j < length es" by simp
    show ?thesis
      using Cons.IH [OF j, of "ev_tick e"] Suc
      by (cases j) (simp_all add: delta_loop_Cons del: delta_loop.simps(2))
  qed
qed

lemma delta_loop_accumulate:
  "accumulate p (map msg_time (delta_loop es p [])) = map ev_tick es"
  by (induction es arbitrary: p)
     (simp_all add: delta_loop_Cons event_message_def del: delta_loop.simps(2))

lemma delta_loop_nonneg:
  "sorted (map ev_tick es) \<Longrightarrow> \<forall>e \<in> set es. p \<le> ev_tick e \<Longrightarrow>
   \<forall>m \<in> set (delta_loop es p []). 0 \<le> msg_time m"
proof (induction es arbitrary: p)
  case Nil
  then show ?case by simp
next
  case (Cons e es)
  from Cons.prems have "sorted (map ev_tick es)" and "\<forall>x \<in> set es. ev_tick e \<le> ev_tick x"
    by simp_all
  from Cons.IH [OF this] Cons.prems(2) show ?case
    by (simp add: delta_loop_Cons event_message_def del: delta_loop.simps(2))
qed

lemma write_track_notes:
  "filter is_note_message (fst (write_track name events g)) = delta_loop (events_sorted events) 0 []"
proof -
  let ?pc = "if name = ''Drums'' then ProgramChange 0 9 0
             else ProgramChange (fst (random_choice RANDOM_INSTRUMENTS g))
                    (if name = ''Bass'' then 1 else if name = ''Harmony'' then 2 else 0) 0"
  have w: "fst (write_track name events g) = delta_loop (events_sorted events) 0 [?pc] @ [EndOfTrack 0]"
    by (simp add: write_track_def split_beta Let_def add_program_change_def)
  have pc: "\<not> is_note_message ?pc"
    by simp
  have "fst (write_track name events g) = [?pc] @ delta_loop (events_sorted events) 0 [] @ [EndOfTrack 0]"
    unfolding w by (subst delta_loop_acc) simp
  then show ?thesis
    using pc by (simp add: delta_loop_all_notes)
qed

lemma events_sorted_props:
  "sorted (map ev_tick (events_sorted events))"
  "mset (events_sorted events) = mset events"
  "filter (\<lambda>e. ev_tick e = k) (events_sorted events) = filter (\<lambda>e. ev_tick e = k) events"
proof -
  have f: "ev_tick = (\<lambda>e. fst e)" by (rule ext) (simp add: ev_tick_def)
  show "sorted (map ev_tick (events_sorted events))"
    unfolding f events_sorted_def by (rule sorted_sort_key)
  show "mset (events_sorted events) = mset events"
    unfolding events_sorted_def by (rule mset_sort)
  show "filter (\<lambda>e. ev_tick e = k) (events_sorted events) = filter (\<lambda>e. ev_tick e = k) events"
    unfolding f events_sorted_def by (rule sort_key_stable)
qed

text \<open>
  Claim C2. For a track whose events have non-negative ticks, the track writer sorts the
  events by tick with a stable sort (the result is sorted, a permutation of the events, and
  for every tick the events at that tick keep their order), emits one note message per
  event, in sorted order, whose delta time is the tick of the event minus the tick of the
  event before it (minus 0 for the first), every delta time is non-negative, and
  accumulating the delta times from 0 gives back the sorted ticks.
\<close>

theorem serializer_delta_round_trip:
  assumes "\<forall>e \<in> set events. 0 \<le> ev_tick e"
  shows "sorted (map ev_tick (events_sorted events))
       \<and> mset (events_sorted events) = mset events
       \<and> filter (\<lambda>e. ev_tick e = k) (events_sorted events) = filter (\<lambda>e. ev_tick e = k) events
       \<and> length (filter is_note_message (fst (write_track name events g))) = length events
       \<and> (\<forall>i < length events.
             filter is_note_message (fst (write_track name events g)) ! i =
               event_message (events_sorted events ! i)
                 (ev_tick (events_sorted events ! i)
                   - (if i = 0 then 0 else ev_tick (events_sorted events ! (i - 1)))))
       \<and> (\<forall>m \<in> set (filter is_note_message (fst (write_track name events g))). 0 \<le> msg_time m)
       \<and> accumulate 0 (map msg_time (filter is_note_message (fst (write_track name events g)))) =
           map ev_tick (events_sorted events)"
proof -
  have len: "length (events_sorted events) = length events"
    by (simp add: events_sorted_def)
  have set_eq: "set (events_sorted events) = set events"
    by (simp add: events_sorted_def)
  have a: "length (filter is_note_message (fst (write_track name events g))) = length events"
    by (simp add: write_track_notes delta_loop_length len)
  have b: "\<forall>i < length events.
             filter is_note_message (fst (write_track name events g)) ! i =
               event_message (events_sorted events ! i)
                 (ev_tick (events_sorted events ! i)
                   - (if i = 0 then 0 else ev_tick (events_sorted events ! (i - 1))))"
    unfolding write_track_notes using delta_loop_nth [of _ "events_sorted events" 0] len by simp
  have c: "\<forall>m \<in> set (filter is_note_message (fst (write_track name events g))). 0 \<le> msg_time m"
    unfolding write_track_notes
    by (rule delta_loop_nonneg) (use assms set_eq events_sorted_props(1) in simp_all)
  have d: "accumulate 0 (map msg_time (filter is_note_message (fst (write_track name events g)))) =
           map ev_tick (events_sorted events)"
    unfolding write_track_notes by (rule delta_loop_accumulate)
  from events_sorted_props(1) [of events] events_sorted_props(2) [of events]
    events_sorted_props(3) [of k events] a b c d
  show ?thesis by blast
qed

theorem serializer_delta_round_trip_witness:
  "fst (write_track ''Bass''
          [(480, ''note_off'', 60, 50, 1), (0, ''note_on'', 60, 50, 1), (480, ''note_on'', 62, 50, 1)]
          \<lparr>src = (\<lambda>i. 0), pos = 0\<rparr>) =
     [ProgramChange 0 1 0, Message ''note_on'' 60 50 0 1, Message ''note_off'' 60 50 480 1,
      Message ''note_on'' 62 50 0 1, EndOfTrack 0]
   \<and> accumulate 0 (map msg_time (filter is_note_message (fst (write_track ''Bass''
          [(480, ''note_off'', 60, 50, 1), (0, ''note_on'', 60, 50, 1), (480, ''note_on'', 62, 50, 1)]
          \<lparr>src = (\<lambda>i. 0), pos = 0\<rparr>)))) = [0, 480, 480]"
proof -
  let ?evs = "[(480, ''note_off'', 60, 50, 1), (0, ''note_on'', 60, 50, 1), (480, ''note_on'', 62, 50, 1)] :: event list"
  let ?g = "\<lparr>src = (\<lambda>i. 0), pos = 0\<rparr>"
  have h: "\<forall>e \<in> set ?evs. 0 \<le> ev_tick e"
    by (simp add: ev_tick_def)
  have s: "events_sorted ?evs =
           [(0, ''note_on'', 60, 50, 1), (480, ''note_off'', 60, 50, 1), (480, ''note_on'', 62, 50, 1)]"
    by (simp add: events_sorted_def)
  have e: "fst (write_track ''Bass'' ?evs ?g) =
     [ProgramChange 0 1 0, Message ''note_on'' 60 50 0 1, Message ''note_off'' 60 50 480 1,
      Message ''note_on'' 62 50 0 1, EndOfTrack 0]"
    by (simp add: write_track_def s random_choice_def draw_eval RANDOM_INSTRUMENTS_def
        add_program_change_def)
  from serializer_delta_round_trip [OF h, of 0 "''Bass''" ?g]
  have "accumulate 0 (map msg_time (filter is_note_message (fst (write_track ''Bass'' ?evs ?g)))) =
        map ev_tick (events_sorted ?evs)"
    by blast
  then have "accumulate 0 (map msg_time (filter is_note_message (fst (write_track ''Bass'' ?evs ?g)))) =
        [0, 480, 480]"
    by (simp add: s ev_tick_def)
  with e show ?thesis by (rule conjI)
qed

section \<open>Note-on and note-off pairs\<close>

















section \<open>The chord progression\<close>

lemma build_triads_shape:
  "fst (build_triads b g) = [b, b + 4, b + 7] \<or> fst (build_triads b g) = [b, b + 3, b + 7]"
  by (simp add: build_triads_def split_beta)

lemma chords_loop_length:
  "length (fst (chords_loop n intervals base chords g)) = length chords + n"
  by (induction n arbitrary: chords g) (simp_all add: split_beta Let_def)

lemma chords_loop_triads:
  "\<forall>t \<in> set chords. \<exists>r. t = [r, r + 4, r + 7] \<or> t = [r, r + 3, r + 7] \<Longrightarrow>
   \<forall>t \<in> set (fst (chords_loop n intervals base chords g)).
      \<exists>r. t = [r, r + 4, r + 7] \<or> t = [r, r + 3, r + 7]"
proof (induction n arbitrary: chords g)
  case 0
  then show ?case by simp
next
  case (Suc n)
  let ?c = "random_choice intervals g"
  let ?t = "build_triads (base + fst ?c) (snd ?c)"
  have "\<forall>t \<in> set (chords @ [fst ?t]). \<exists>r. t = [r, r + 4, r + 7] \<or> t = [r, r + 3, r + 7]"
    using Suc.prems build_triads_shape [of "base + fst ?c" "snd ?c"] by auto
  from Suc.IH [OF this] show ?case by (simp add: split_beta Let_def)
qed

text \<open>
  Claim C4. For a chord count \<open>C \<ge> 0\<close> the progression has exactly C chords, each chord is
  the major triad (r, r + 4, r + 7) or the minor triad (r, r + 3, r + 7) on some root r, so
  it has three pitches in non-decreasing order, and the label is the non-empty text made of
  a root name, the octave (2 to 5), a space and a mode name.
\<close>

theorem progression_triads:
  assumes "0 \<le> C"
  shows "int (length (fst (fst (get_random_chord_progression C g)))) = C
       \<and> (\<forall>t \<in> set (fst (fst (get_random_chord_progression C g))).
             (\<exists>r. t = [r, r + 4, r + 7] \<or> t = [r, r + 3, r + 7]) \<and> length t = 3 \<and> sorted t)
       \<and> snd (fst (get_random_chord_progression C g)) \<noteq> []
       \<and> (\<exists>root_name octave mode_name.
             root_name \<in> set note_names \<and> 2 \<le> octave \<and> octave \<le> 5
           \<and> mode_name \<in> fst ` set possible_modes
           \<and> snd (fst (get_random_chord_progression C g)) =
               root_name @ str_int octave @ '' '' @ mode_name)"
proof -
  let ?r = "random_choice note_names g"
  let ?o = "random_randint 2 5 (snd ?r)"
  let ?m = "random_choice possible_modes (snd ?o)"
  let ?l = "chords_loop (nat C) (snd (fst ?m)) (note_name_to_midi (fst ?r) (fst ?o)) [] (snd ?m)"
  have chords: "fst (fst (get_random_chord_progression C g)) = fst ?l"
    by (simp add: get_random_chord_progression_def split_beta Let_def)
  have label: "snd (fst (get_random_chord_progression C g)) =
               fst ?r @ str_int (fst ?o) @ '' '' @ fst (fst ?m)"
    by (simp add: get_random_chord_progression_def split_beta Let_def)
  have len: "int (length (fst ?l)) = C"
    using assms by (simp add: chords_loop_length)
  have tri: "\<forall>t \<in> set (fst ?l). \<exists>r. t = [r, r + 4, r + 7] \<or> t = [r, r + 3, r + 7]"
    by (rule chords_loop_triads) simp
  have tri': "\<forall>t \<in> set (fst ?l).
      (\<exists>r. t = [r, r + 4, r + 7] \<or> t = [r, r + 3, r + 7]) \<and> length t = 3 \<and> sorted t"
    using tri by fastforce
  have root: "fst ?r \<in> set note_names"
    by (rule random_choice_in) (simp add: note_names_def)
  have oct: "2 \<le> fst ?o \<and> fst ?o \<le> 5"
    by (rule random_randint_range) simp
  have "fst ?m \<in> set possible_modes"
    by (rule random_choice_in) (simp add: possible_modes_def)
  then have mode: "fst (fst ?m) \<in> fst ` set possible_modes"
    by (rule imageI)
  have ne: "snd (fst (get_random_chord_progression C g)) \<noteq> []"
    unfolding label by simp
  from len tri' ne root oct mode label show ?thesis
    unfolding chords by blast
qed

theorem progression_triads_witness:
  "(0::int) \<le> 2
   \<and> fst (get_random_chord_progression 2 \<lparr>src = (\<lambda>i. if i = 4 then 2 ^ 52 else 0), pos = 0\<rparr>) =
       ([[36, 39, 43], [36, 40, 43]], ''C2 major'')
   \<and> int (length (fst (fst (get_random_chord_progression 2
         \<lparr>src = (\<lambda>i. if i = 4 then 2 ^ 52 else 0), pos = 0\<rparr>)))) = 2"
proof -
  let ?g = "\<lparr>src = (\<lambda>i. if i = 4 then 2 ^ 52 else 0), pos = 0\<rparr>"
  have h: "(0::int) \<le> 2" by simp
  have e: "fst (get_random_chord_progression 2 ?g) = ([[36, 39, 43], [36, 40, 43]], ''C2 major'')"
    by (simp add: get_random_chord_progression_def random_choice_def random_randint_def draw_eval
        build_triads_def random_random_def note_names_def possible_modes_def chords_loop_numeral
        note_name_to_midi_def note_map_def float_0_5_def str_int_def str_nat.simps Let_def)
  from progression_triads [OF h, of ?g] have
    "int (length (fst (fst (get_random_chord_progression 2 ?g)))) = 2"
    by blast
  with h e show ?thesis by blast
qed

section \<open>The L-system expansion\<close>

text \<open>
  Claim C5. For a depth \<open>d \<ge> 0\<close> the expansion of the grammar A \<rightarrow> AB, B \<rightarrow> A from the axiom
  A has length 1 at depth 0, length 2 at depth 1, and at depth \<open>d + 2\<close> the sum of the lengths
  at depths \<open>d + 1\<close> and \<open>d\<close>. The expansion holds the symbols A and B only, the duration
  list maps A to 1.0 and every other symbol (that is, B) to 0.5, and an index reduced
  modulo the length of the duration list is in range, so the list can be read cyclically.
\<close>

theorem lsystem_length_recurrence:
  assumes "0 \<le> d"
  shows "length (l_system ''A'' lsystem_rules 0) = 1
       \<and> length (l_system ''A'' lsystem_rules 1) = 2
       \<and> length (l_system ''A'' lsystem_rules (d + 2)) =
           length (l_system ''A'' lsystem_rules (d + 1)) + length (l_system ''A'' lsystem_rules d)
       \<and> set (l_system ''A'' lsystem_rules d) \<subseteq> {CHR ''A'', CHR ''B''}
       \<and> lsystem_durations d =
           map (\<lambda>c. if c = CHR ''A'' then 1 else 1 / 2) (l_system ''A'' lsystem_rules d)
       \<and> set (lsystem_durations d) \<subseteq> {1, 1 / 2}
       \<and> i mod length (lsystem_durations d) < length (lsystem_durations d)"
proof -
  have n2: "nat (d + 2) = Suc (Suc (nat d))" and n1: "nat (d + 1) = Suc (nat d)"
    using assms by simp_all
  have a: "length (l_system ''A'' lsystem_rules 0) = 1"
    by (simp add: l_system_def)
  have b: "length (l_system ''A'' lsystem_rules 1) = 2"
    by (simp add: l_system_def rewrite_A)
  have c: "length (l_system ''A'' lsystem_rules (d + 2)) =
           length (l_system ''A'' lsystem_rules (d + 1)) + length (l_system ''A'' lsystem_rules d)"
    unfolding l_system_def n2 n1 l_system_loop_fib by simp
  have e: "set (l_system ''A'' lsystem_rules d) \<subseteq> {CHR ''A'', CHR ''B''}"
    unfolding l_system_def by (rule l_system_loop_alphabet) simp
  have f: "lsystem_durations d =
           map (\<lambda>c. if c = CHR ''A'' then 1 else 1 / 2) (l_system ''A'' lsystem_rules d)"
    by (simp add: lsystem_durations_def)
  have g: "set (lsystem_durations d) \<subseteq> {1, 1 / 2}"
    unfolding f by auto
  have h: "i mod length (lsystem_durations d) < length (lsystem_durations d)"
    using lsystem_durations_nonempty [of d] by simp
  from a b c e f g h show ?thesis by blast
qed

theorem lsystem_length_recurrence_witness:
  "(0::int) \<le> 3
   \<and> length (l_system ''A'' lsystem_rules 5) =
       length (l_system ''A'' lsystem_rules 4) + length (l_system ''A'' lsystem_rules 3)
   \<and> l_system ''A'' lsystem_rules 3 = ''ABAAB''
   \<and> lsystem_durations 3 = [1, 1 / 2, 1, 1, 1 / 2]"
proof -
  have h: "(0::int) \<le> 3" by simp
  have e: "l_system ''A'' lsystem_rules 3 = ''ABAAB''"
    by (simp add: l_system_def eval_nat_numeral rewrite_pass_def lsystem_rules_def)
  from lsystem_length_recurrence [OF h, of 0] e show ?thesis by simp
qed

section \<open>Zero counts\<close>


section \<open>One melody note\<close>

lemma melody_shift_eq:
  "melody_shift note g =
     (if fst (random_random g) < float_0_2 then (note + 12, snd (random_random g))
      else if fst (random_random (snd (random_random g))) < float_0_2
           then (note - 12, snd (random_random (snd (random_random g))))
           else (note, snd (random_random (snd (random_random g)))))"
  by (simp add: melody_shift_def split_beta)

text \<open>
  Claim C7. One pass of the inner loop of the melody that succeeds appends one note: its
  pitch is the scale note selected through the phrase plus a shift of 12, 0 or -12, where
  the shift is 12 exactly when the first draw is below 0.2, and -12 exactly when the first
  draw is not and the second draw (made only then) is below 0.2; its duration is the minimum
  of the cycled L-system duration in ticks and the budget \<open>sub_tick\<close>; the note-off lies at
  the cursor plus that duration, and the cursor advances by that duration.
\<close>

theorem melody_note_pitch_and_duration:
  assumes "melody_note phrase scale_notes durations_list sub_tick tpb track_events current_time lsys_idx g =
             Inr (track_events', current_time', lsys_idx', g')"
  shows "\<exists>base shift duration velocity r1 r2.
           py_index scale_notes (fst (random_choice phrase g)) = Inr base
         \<and> r1 = fst (random_random (snd (random_choice phrase g)))
         \<and> r2 = fst (random_random (snd (random_random (snd (random_choice phrase g)))))
         \<and> shift = (if r1 < float_0_2 then 12 else if r2 < float_0_2 then - 12 else 0)
         \<and> (shift = 12 \<or> shift = 0 \<or> shift = - 12)
         \<and> (shift = 12) = (r1 < float_0_2)
         \<and> (shift = - 12) = (\<not> r1 < float_0_2 \<and> r2 < float_0_2)
         \<and> duration = min (py_int (durations_list ! (lsys_idx mod length durations_list) * of_int tpb)) sub_tick
         \<and> 60 \<le> velocity \<and> velocity \<le> 127
         \<and> track_events' =
             track_events @ [(current_time, ''note_on'', base + shift, velocity, 0),
                             (current_time + duration, ''note_off'', base + shift, velocity, 0)]
         \<and> current_time' = current_time + duration
         \<and> lsys_idx' = lsys_idx + 1"
proof -
  let ?c = "random_choice phrase g"
  let ?r1 = "fst (random_random (snd ?c))"
  let ?r2 = "fst (random_random (snd (random_random (snd ?c))))"
  let ?shift = "if ?r1 < float_0_2 then 12 else if ?r2 < float_0_2 then - 12 else (0::int)"
  let ?duration = "min (py_int (durations_list ! (lsys_idx mod length durations_list) * of_int tpb)) sub_tick"
  from assms have ne: "phrase \<noteq> []"
    by (auto simp: melody_note_def split: if_splits)
  from assms ne obtain base where base: "py_index scale_notes (fst ?c) = Inr base"
    by (cases "py_index scale_notes (fst ?c)") (simp_all add: melody_note_def split_beta)
  let ?s = "melody_shift base (snd ?c)"
  from assms ne base have dne: "durations_list \<noteq> []"
    by (auto simp: melody_note_def split_beta split: if_splits)
  let ?v = "random_randint 60 127 (snd ?s)"
  have nt: "fst ?s = base + ?shift"
    by (simp add: melody_shift_eq)
  from assms ne base dne have
    tr: "track_events' = add_note track_events (fst ?s) (fst ?v) current_time ?duration 0"
    and ct: "current_time' = current_time + ?duration"
    and li: "lsys_idx' = lsys_idx + 1"
    by (simp_all add: melody_note_def split_beta Let_def)
  have "60 \<le> fst ?v \<and> fst ?v \<le> 127"
    by (rule random_randint_range) simp
  then have v1: "60 \<le> fst ?v" and v2: "fst ?v \<le> 127"
    by simp_all
  have tr': "track_events' =
             track_events @ [(current_time, ''note_on'', base + ?shift, fst ?v, 0),
                             (current_time + ?duration, ''note_off'', base + ?shift, fst ?v, 0)]"
    unfolding tr nt by (simp add: add_note_def)
  have s1: "?shift = 12 \<or> ?shift = 0 \<or> ?shift = - 12" by simp
  have s2: "(?shift = 12) = (?r1 < float_0_2)" by simp
  have s3: "(?shift = - 12) = (\<not> ?r1 < float_0_2 \<and> ?r2 < float_0_2)" by simp
  show ?thesis
    apply (rule exI [of _ base])
    apply (rule exI [of _ ?shift])
    apply (rule exI [of _ ?duration])
    apply (rule exI [of _ "fst ?v"])
    apply (rule exI [of _ ?r1])
    apply (rule exI [of _ ?r2])
    using base s1 s2 s3 v1 v2 tr' ct li
    apply (intro conjI)
                apply (rule refl | assumption)+
    done
qed

theorem melody_note_pitch_and_duration_witness:
  "melody_note [0] [60] [1, 1 / 2] 300 480 [] 0 1 \<lparr>src = (\<lambda>i. if i = 1 then 2 ^ 52 else 0), pos = 0\<rparr> =
     Inr ([(0, ''note_on'', 48, 60, 0), (240, ''note_off'', 48, 60, 0)], 240, 2,
          \<lparr>src = (\<lambda>i. if i = 1 then 2 ^ 52 else 0), pos = 4\<rparr>)
   \<and> (240 :: int) = 0 + min (py_int ([1, 1 / 2] ! (1 mod length [1, 1 / 2 :: rat]) * of_int 480)) 300"
proof -
  let ?g = "\<lparr>src = (\<lambda>i. if i = 1 then 2 ^ 52 else 0), pos = 0\<rparr>"
  have e: "melody_note [0] [60] [1, 1 / 2] 300 480 [] 0 1 ?g =
     Inr ([(0, ''note_on'', 48, 60, 0), (240, ''note_off'', 48, 60, 0)], 240, 2,
          \<lparr>src = (\<lambda>i. if i = 1 then 2 ^ 52 else 0), pos = 4\<rparr>)"
    by (simp add: melody_note_def melody_shift_def random_random_def random_choice_def
        random_randint_def draw_eval py_index_def py_int_def float_0_2_def add_note_def)
  from melody_note_pitch_and_duration [OF e] obtain duration :: int where
    d1: "duration = min (py_int ([1, 1 / 2] ! (1 mod length [1, 1 / 2 :: rat]) * of_int 480)) 300"
    and d2: "(240 :: int) = 0 + duration"
    apply (elim exE conjE)
    apply (rule that)
     apply assumption+
    done
  from d2 have "(240 :: int) = 0 + min (py_int ([1, 1 / 2] ! (1 mod length [1, 1 / 2 :: rat]) * of_int 480)) 300"
    unfolding d1 .
  with e show ?thesis by (rule conjI)
qed

section \<open>Zero chords\<close>

text \<open>
  Claim C8. For a chord count of 0 the progression is empty, and on the empty progression
  the Bass and Harmony generators return the empty event list without consuming a draw; the
  Melody generator returns the empty event list too, given a non-empty scale (on an empty
  scale it raises ValueError while it draws the phrase, whatever the chords are).
\<close>

theorem zero_chords_empty_tracks:
  assumes "scale_notes \<noteq> []"
  shows "fst (fst (get_random_chord_progression 0 g)) = []
       \<and> create_bass_track_chaos [] bpc tpb g = Inr ([], g)
       \<and> create_harmony_track_chaos [] bpc tpb g = Inr ([], g)
       \<and> (\<exists>g'. create_melody_track_chaos [] scale_notes bpc tpb g = Inr ([], g'))"
proof -
  have a: "fst (fst (get_random_chord_progression 0 g)) = []"
    by (simp add: get_random_chord_progression_def split_beta Let_def)
  have b: "create_bass_track_chaos [] bpc tpb g = Inr ([], g)"
    by (simp add: create_bass_track_chaos_def)
  have c: "create_harmony_track_chaos [] bpc tpb g = Inr ([], g)"
    by (simp add: create_harmony_track_chaos_def)
  let ?d = "random_randint 2 5 g"
  let ?l = "random_randint 3 7 (snd ?d)"
  from phrase_loop_ok [OF assms, of "nat (fst ?l)" "[]" "snd ?l"] obtain phrase g' where
    "phrase_loop (nat (fst ?l)) scale_notes [] (snd ?l) = Inr (phrase, g')"
    by blast
  then have "create_melody_track_chaos [] scale_notes bpc tpb g = Inr ([], g')"
    by (simp add: create_melody_track_chaos_def split_beta Let_def)
  then have d: "\<exists>g'. create_melody_track_chaos [] scale_notes bpc tpb g = Inr ([], g')"
    by blast
  from a b c d show ?thesis by blast
qed



theorem zero_chords_empty_tracks_witness:
  "[60, 62, 64 :: int] \<noteq> []
   \<and> create_melody_track_chaos [] [60, 62, 64] 4 480 \<lparr>src = (\<lambda>i. 0), pos = 0\<rparr> =
       Inr ([], \<lparr>src = (\<lambda>i. 0), pos = 5\<rparr>)
   \<and> create_bass_track_chaos [] 4 480 \<lparr>src = (\<lambda>i. 0), pos = 0\<rparr> = Inr ([], \<lparr>src = (\<lambda>i. 0), pos = 0\<rparr>)"
proof -
  have h: "[60, 62, 64 :: int] \<noteq> []" by simp
  have e: "create_melody_track_chaos [] [60, 62, 64] 4 480 \<lparr>src = (\<lambda>i. 0), pos = 0\<rparr> =
       Inr ([], \<lparr>src = (\<lambda>i. 0), pos = 5\<rparr>)"
    by (simp add: create_melody_track_chaos_def random_randint_def draw_eval phrase_loop_numeral)
  from zero_chords_empty_tracks [OF h, of "\<lparr>src = (\<lambda>i. 0), pos = 0\<rparr>" 4 480] e h
  show ?thesis by simp
qed

section \<open>Pitches are not clamped, and a run stays in range\<close>

text \<open>
  The chords of a progression have their roots in 36..94 and their fifths in 43..101, and the
  scale of a run has its notes in 48..106; an octave shift moves a pitch by 12 at most.
\<close>

lemma notes_within_Nil: "notes_within lo hi []"
  by (simp add: notes_within_def)

lemma notes_within_add_note:
  "notes_within lo hi tr \<Longrightarrow> lo \<le> n \<Longrightarrow> n \<le> hi \<Longrightarrow> notes_within lo hi (add_note tr n v t d c)"
  by (simp add: notes_within_def add_note_def ev_note_def)

lemma note_name_to_midi_range:
  "name \<in> set note_names \<Longrightarrow>
   12 * (octave + 1) \<le> note_name_to_midi name octave \<and> note_name_to_midi name octave \<le> 12 * (octave + 1) + 11"
  by (auto simp: note_names_def note_name_to_midi_def note_map_def)

lemma possible_modes_intervals:
  "p \<in> set possible_modes \<Longrightarrow> snd p \<noteq> [] \<and> (\<forall>i \<in> set (snd p). 0 \<le> i \<and> i \<le> 11)"
  by (auto simp: possible_modes_def)

lemma scale_mode_table_intervals:
  "iv \<in> set scale_mode_table \<Longrightarrow> iv \<noteq> [] \<and> (\<forall>i \<in> set iv. 0 \<le> i \<and> i \<le> 11)"
  by (auto simp: scale_mode_table_def)

lemma build_triads_root:
  "\<exists>t. fst (build_triads r g) = [r, t, r + 7]"
  by (simp add: build_triads_def split_beta)

lemma chords_loop_range:
  assumes "intervals \<noteq> []" and "\<forall>i \<in> set intervals. 0 \<le> i \<and> i \<le> 11"
  shows "\<forall>c \<in> set chords. \<exists>r t. c = [r, t, r + 7] \<and> base \<le> r \<and> r \<le> base + 11 \<Longrightarrow>
         \<forall>c \<in> set (fst (chords_loop n intervals base chords g)).
            \<exists>r t. c = [r, t, r + 7] \<and> base \<le> r \<and> r \<le> base + 11"
proof (induction n arbitrary: chords g)
  case 0
  then show ?case by simp
next
  case (Suc n)
  let ?c = "random_choice intervals g"
  let ?t = "build_triads (base + fst ?c) (snd ?c)"
  have "fst ?c \<in> set intervals"
    using assms(1) by (rule random_choice_in)
  with assms(2) have i: "0 \<le> fst ?c" "fst ?c \<le> 11" by auto
  from build_triads_root [of "base + fst ?c" "snd ?c"] obtain t where
    t: "fst ?t = [base + fst ?c, t, base + fst ?c + 7]" by blast
  have "\<forall>c \<in> set (chords @ [fst ?t]). \<exists>r t. c = [r, t, r + 7] \<and> base \<le> r \<and> r \<le> base + 11"
    using Suc.prems i t by auto
  from Suc.IH [OF this] show ?case by (simp add: split_beta Let_def)
qed

lemma progression_range:
  "\<forall>c \<in> set (fst (fst (get_random_chord_progression m g))).
     \<exists>r t. c = [r, t, r + 7] \<and> 36 \<le> r \<and> r \<le> 94"
proof -
  let ?r = "random_choice note_names g"
  let ?o = "random_randint 2 5 (snd ?r)"
  let ?m = "random_choice possible_modes (snd ?o)"
  let ?base = "note_name_to_midi (fst ?r) (fst ?o)"
  let ?l = "chords_loop (nat m) (snd (fst ?m)) ?base [] (snd ?m)"
  have chords: "fst (fst (get_random_chord_progression m g)) = fst ?l"
    by (simp add: get_random_chord_progression_def split_beta Let_def)
  have root: "fst ?r \<in> set note_names"
    by (rule random_choice_in) (simp add: note_names_def)
  have oct: "2 \<le> fst ?o \<and> fst ?o \<le> 5"
    by (rule random_randint_range) simp
  from note_name_to_midi_range [OF root, of "fst ?o"] oct
  have base: "36 \<le> ?base" "?base \<le> 83" by simp_all
  have "fst ?m \<in> set possible_modes"
    by (rule random_choice_in) (simp add: possible_modes_def)
  from possible_modes_intervals [OF this]
  have iv: "snd (fst ?m) \<noteq> []" "\<forall>i \<in> set (snd (fst ?m)). 0 \<le> i \<and> i \<le> 11"
    by simp_all
  have "\<forall>c \<in> set (fst ?l). \<exists>r t. c = [r, t, r + 7] \<and> ?base \<le> r \<and> r \<le> ?base + 11"
    by (rule chords_loop_range [OF iv]) simp
  then show ?thesis
    unfolding chords using base by fastforce
qed

lemma bass_shift_range:
  "fst (if c then random_choice [- 12, 0, 12 :: int] g else (0, g)) \<in> {- 12, 0, 12}"
  using random_choice_in [of "[- 12, 0, 12 :: int]" g] by auto

lemma bass_slots_Suc_note:
  "\<exists>n' v g'. bass_slots (Suc n) r f sub tr t g =
               bass_slots n r f sub (add_note tr n' v t sub 1) (t + sub) g'
             \<and> (n' - r \<in> {- 12, 0, 12} \<or> n' - f \<in> {- 12, 0, 12})"
proof -
  let ?r1 = "random_random g"
  let ?r2 = "random_random (snd ?r1)"
  let ?sh = "if fst ?r2 < float_0_5 then random_choice [- 12, 0, 12 :: int] (snd ?r2) else (0, snd ?r2)"
  let ?n = "(if fst ?r1 < float_0_7 then r else f) + fst ?sh"
  let ?v = "random_randint 50 100 (snd ?sh)"
  have "bass_slots (Suc n) r f sub tr t g =
        bass_slots n r f sub (add_note tr ?n (fst ?v) t sub 1) (t + sub) (snd ?v)"
    by (simp add: split_beta Let_def)
  moreover have "?n - r \<in> {- 12, 0, 12} \<or> ?n - f \<in> {- 12, 0, 12}"
    using bass_shift_range [of "fst ?r2 < float_0_5" "snd ?r2"] by auto
  ultimately show ?thesis by blast
qed

lemma bass_slots_range:
  "notes_within 24 113 tr \<Longrightarrow> 36 \<le> r \<Longrightarrow> r \<le> 101 \<Longrightarrow> 36 \<le> f \<Longrightarrow> f \<le> 101 \<Longrightarrow>
   notes_within 24 113 (fst (bass_slots n r f sub tr t g))"
proof (induction n arbitrary: tr t g)
  case 0
  then show ?case by simp
next
  case (Suc n)
  from bass_slots_Suc_note [of n r f sub tr t g] obtain n' v g' where
    step: "bass_slots (Suc n) r f sub tr t g =
           bass_slots n r f sub (add_note tr n' v t sub 1) (t + sub) g'"
    and n': "n' - r \<in> {- 12, 0, 12} \<or> n' - f \<in> {- 12, 0, 12}"
    by blast
  from n' Suc.prems(2-5) have "24 \<le> n'" "n' \<le> 113" by auto
  with Suc.prems(1) have "notes_within 24 113 (add_note tr n' v t sub 1)"
    by (rule notes_within_add_note)
  from Suc.IH [OF this Suc.prems(2-5)] show ?case
    unfolding step .
qed

lemma bass_chords_range:
  "\<forall>c \<in> set chords. \<exists>r t. c = [r, t, r + 7] \<and> 36 \<le> r \<and> r \<le> 94 \<Longrightarrow> notes_within 24 113 tr \<Longrightarrow>
   \<exists>evs g'. bass_chords chords bpc tpb tr ct g = Inr (evs, g') \<and> notes_within 24 113 evs"
proof (induction chords arbitrary: tr ct g)
  case Nil
  then show ?case by simp
next
  case (Cons chord rest)
  from Cons.prems(1) obtain r t where chord: "chord = [r, t, r + 7]" and r: "36 \<le> r" "r \<le> 94"
    by auto
  let ?L = "chord_length_ticks bpc tpb"
  let ?s = "random_randint 1 5 g"
  let ?b = "bass_chord (fst ?s) r (r + 7) ?L tr ct (snd ?s)"
  have p: "notes_within 24 113 (fst ?b)"
    unfolding bass_chord_def Let_def
    by (rule bass_slots_range [OF Cons.prems(2)]) (use r in simp_all)
  from Cons.prems(1) have rest: "\<forall>c \<in> set rest. \<exists>r t. c = [r, t, r + 7] \<and> 36 \<le> r \<and> r \<le> 94"
    by simp
  from Cons.IH [OF rest p] show ?case
    by (simp add: chord split_beta Let_def)
qed

lemma build_scale_notes_range:
  assumes "iv \<noteq> []" and "\<forall>i \<in> set iv. 0 \<le> i \<and> i \<le> 11" and "48 \<le> r" and "r \<le> 83"
  shows "build_scale_notes r iv \<noteq> [] \<and> (\<forall>n \<in> set (build_scale_notes r iv). 48 \<le> n \<and> n \<le> 106)"
  using assms by (auto simp: build_scale_notes_def)

lemma py_index_mem: "py_index xs i = Inr x \<Longrightarrow> x \<in> set xs"
  by (auto simp: py_index_def Let_def split: if_splits)

lemma melody_shift_range:
  "fst (melody_shift n g) - n \<in> {- 12, 0, 12}"
  by (simp add: melody_shift_def split_beta)

lemma melody_note_range:
  assumes "phrase \<noteq> []" and "set phrase \<subseteq> {0 ..< int (length scale_notes)}" and "durations_list \<noteq> []"
    and "\<forall>n \<in> set scale_notes. 48 \<le> n \<and> n \<le> 106" and "notes_within 36 118 tr"
  shows "\<exists>evs ct' li' g'. melody_note phrase scale_notes durations_list sub_tick tpb tr ct li g =
                            Inr (evs, ct', li', g')
                        \<and> notes_within 36 118 evs"
proof -
  let ?c = "random_choice phrase g"
  have "fst ?c \<in> set phrase"
    using assms(1) by (rule random_choice_in)
  with assms(2) have "0 \<le> fst ?c" "fst ?c < int (length scale_notes)"
    by auto
  then have idx: "py_index scale_notes (fst ?c) = Inr (scale_notes ! nat (fst ?c))"
    by (simp add: py_index_def)
  let ?base = "scale_notes ! nat (fst ?c)"
  from py_index_mem [OF idx] assms(4) have b: "48 \<le> ?base" "?base \<le> 106"
    by auto
  let ?s = "melody_shift ?base (snd ?c)"
  from melody_shift_range [of ?base "snd ?c"] b have n: "36 \<le> fst ?s" "fst ?s \<le> 118"
    by auto
  show ?thesis
    using assms(1,3) by (simp add: melody_note_def idx split_beta Let_def
        notes_within_add_note [OF assms(5) n])
qed

lemma melody_notes_range:
  assumes "phrase \<noteq> []" and "set phrase \<subseteq> {0 ..< int (length scale_notes)}" and "durations_list \<noteq> []"
    and "\<forall>n \<in> set scale_notes. 48 \<le> n \<and> n \<le> 106"
  shows "notes_within 36 118 tr \<Longrightarrow>
         \<exists>evs ct' li' g'. melody_notes k phrase scale_notes durations_list sub_tick tpb tr ct li g =
                            Inr (evs, ct', li', g')
                        \<and> notes_within 36 118 evs"
proof (induction k arbitrary: tr ct li g)
  case 0
  then show ?case by simp
next
  case (Suc k)
  from melody_note_range [OF assms Suc.prems, of sub_tick tpb ct li g]
  obtain evs ct' li' g' where
    step: "melody_note phrase scale_notes durations_list sub_tick tpb tr ct li g = Inr (evs, ct', li', g')"
    and p: "notes_within 36 118 evs"
    by blast
  from Suc.IH [OF p, of ct' li' g'] show ?case
    by (simp add: step)
qed

lemma melody_chords_range:
  assumes "phrase \<noteq> []" and "set phrase \<subseteq> {0 ..< int (length scale_notes)}" and "durations_list \<noteq> []"
    and "\<forall>n \<in> set scale_notes. 48 \<le> n \<and> n \<le> 106"
  shows "notes_within 36 118 tr \<Longrightarrow>
         \<exists>evs g'. melody_chords chords phrase scale_notes durations_list bpc tpb tr ct li g = Inr (evs, g')
                  \<and> notes_within 36 118 evs"
proof (induction chords arbitrary: tr ct li g)
  case Nil
  then show ?case by simp
next
  case (Cons chord rest)
  let ?n = "random_randint 2 6 g"
  let ?sub = "melody_sub_tick (chord_length_ticks bpc tpb) (fst ?n)"
  from melody_notes_range [OF assms Cons.prems, of "nat (fst ?n)" ?sub tpb ct li "snd ?n"]
  obtain evs ct' li' g' where
    step: "melody_notes (nat (fst ?n)) phrase scale_notes durations_list ?sub tpb tr ct li (snd ?n) =
           Inr (evs, ct', li', g')"
    and p: "notes_within 36 118 evs"
    by blast
  from Cons.IH [OF p, of ct' li' g'] show ?case
    by (simp add: split_beta Let_def step)
qed

lemma create_melody_range:
  assumes "scale_notes \<noteq> []" and "\<forall>n \<in> set scale_notes. 48 \<le> n \<and> n \<le> 106"
  shows "\<exists>evs g'. create_melody_track_chaos chords scale_notes bpc tpb g = Inr (evs, g')
                 \<and> notes_within 36 118 evs"
proof -
  let ?d = "random_randint 2 5 g"
  let ?l = "random_randint 3 7 (snd ?d)"
  from phrase_loop_ok [OF assms(1), of "nat (fst ?l)" "[]" "snd ?l"] obtain phrase g1 where
    ph: "phrase_loop (nat (fst ?l)) scale_notes [] (snd ?l) = Inr (phrase, g1)"
    and len: "length phrase = length ([] :: int list) + nat (fst ?l)"
    and rng: "set phrase \<subseteq> {0 ..< int (length scale_notes)}"
    by auto
  have "3 \<le> fst ?l"
    using random_randint_range [of 3 7 "snd ?d"] by simp
  with len have ne: "phrase \<noteq> []" by auto
  from melody_chords_range [OF ne rng lsystem_durations_nonempty [of "fst ?d"] assms(2) notes_within_Nil,
      where chords = chords and ct = 0 and li = 0 and g = g1]
  show ?thesis
    by (simp add: create_melody_track_chaos_def split_beta Let_def ph)
qed

lemma combine_and_write_midi_ok:
  "tempo \<noteq> 0 \<Longrightarrow> \<exists>mid g'. combine_and_write_midi tracks_dict tempo g = Inr (mid, g')"
  by (simp add: combine_and_write_midi_def split_beta Let_def)

lemma run_pitch_range:
  "(tempo = 0 \<and> run m b tempo g = Inl ZeroDivisionError)
   \<or> (\<exists>drums bass harmony melody mid.
         run m b tempo g =
           Inr ([(''Drums'', drums), (''Bass'', bass), (''Harmony'', harmony), (''Melody'', melody)], mid)
       \<and> notes_within 24 113 bass \<and> notes_within 36 118 melody)"
proof -
  let ?p = "get_random_chord_progression m g"
  let ?chords = "fst (fst ?p)"
  let ?dr = "create_drum_track_chaos m b TICKS_PER_BEAT (snd ?p)"
  from bass_chords_range [OF progression_range notes_within_Nil, of m g "of_int b" TICKS_PER_BEAT 0 "snd ?dr"]
  obtain bs g1 where
    bass: "create_bass_track_chaos ?chords (of_int b) TICKS_PER_BEAT (snd ?dr) = Inr (bs, g1)"
    and bs: "notes_within 24 113 bs"
    unfolding create_bass_track_chaos_def by blast
  from harmony_chords_ok [of ?chords "of_int b" TICKS_PER_BEAT "[]" 0 g1]
  obtain hs g2 where
    harm: "create_harmony_track_chaos ?chords (of_int b) TICKS_PER_BEAT g1 = Inr (hs, g2)"
    unfolding create_harmony_track_chaos_def by fastforce
  let ?iv = "random_choice scale_mode_table g2"
  let ?rn = "random_choice note_names (snd ?iv)"
  let ?ro = "random_randint 3 5 (snd ?rn)"
  let ?root = "note_name_to_midi (fst ?rn) (fst ?ro)"
  let ?scale = "build_scale_notes ?root (fst ?iv)"
  have "fst ?iv \<in> set scale_mode_table"
    by (rule random_choice_in) (simp add: scale_mode_table_def)
  from scale_mode_table_intervals [OF this]
  have iv: "fst ?iv \<noteq> []" "\<forall>i \<in> set (fst ?iv). 0 \<le> i \<and> i \<le> 11" by simp_all
  have rn: "fst ?rn \<in> set note_names"
    by (rule random_choice_in) (simp add: note_names_def)
  have "3 \<le> fst ?ro \<and> fst ?ro \<le> 5"
    by (rule random_randint_range) simp
  with note_name_to_midi_range [OF rn, of "fst ?ro"] have root: "48 \<le> ?root" "?root \<le> 83"
    by simp_all
  from build_scale_notes_range [OF iv root]
  have sc: "?scale \<noteq> []" "\<forall>n \<in> set ?scale. 48 \<le> n \<and> n \<le> 106" by simp_all
  from create_melody_range [OF sc, of ?chords "of_int b" TICKS_PER_BEAT "snd ?ro"]
  obtain ml g3 where
    mel: "create_melody_track_chaos ?chords ?scale (of_int b) TICKS_PER_BEAT (snd ?ro) = Inr (ml, g3)"
    and ml: "notes_within 36 118 ml"
    by blast
  let ?tracks = "[(''Drums'', fst ?dr), (''Bass'', bs), (''Harmony'', hs), (''Melody'', ml)]"
  show ?thesis
  proof (cases "tempo = 0")
    case True
    then have "combine_and_write_midi ?tracks tempo g3 = Inl ZeroDivisionError"
      by (simp add: combine_and_write_midi_def)
    then have "run m b tempo g = Inl ZeroDivisionError"
      by (simp add: run_def split_beta Let_def bass harm mel)
    with True show ?thesis by blast
  next
    case False
    from combine_and_write_midi_ok [OF False, of ?tracks g3] obtain mid g' where
      "combine_and_write_midi ?tracks tempo g3 = Inr (mid, g')" by blast
    then have "run m b tempo g = Inr (?tracks, mid)"
      by (simp add: run_def split_beta Let_def bass harm mel)
    with bs ml show ?thesis by blast
  qed
qed

lemma notes_within_mono:
  "notes_within lo hi evs \<Longrightarrow> lo' \<le> lo \<Longrightarrow> hi \<le> hi' \<Longrightarrow> notes_within lo' hi' evs"
  unfolding notes_within_def by (induction evs) auto

text \<open>
  Claim C9 as stated fails for the inputs a run builds. For every measure count, number of
  beats, tempo and random source, the run either raises ZeroDivisionError (tempo 0, nothing
  is written) or returns with every Bass pitch and every Melody pitch within 0..127.
\<close>

theorem run_pitches_in_midi_range_counterexample:
  "\<forall>m b tempo g.
     (tempo = 0 \<and> run m b tempo g = Inl ZeroDivisionError)
     \<or> (\<exists>drums bass harmony melody mid.
           run m b tempo g =
             Inr ([(''Drums'', drums), (''Bass'', bass), (''Harmony'', harmony), (''Melody'', melody)], mid)
         \<and> notes_within 0 127 bass \<and> notes_within 0 127 melody)"
proof (intro allI)
  fix m b tempo g
  from run_pitch_range [of tempo m b g]
  show "(tempo = 0 \<and> run m b tempo g = Inl ZeroDivisionError)
     \<or> (\<exists>drums bass harmony melody mid.
           run m b tempo g =
             Inr ([(''Drums'', drums), (''Bass'', bass), (''Harmony'', harmony), (''Melody'', melody)], mid)
         \<and> notes_within 0 127 bass \<and> notes_within 0 127 melody)"
  proof
    assume "tempo = 0 \<and> run m b tempo g = Inl ZeroDivisionError"
    then show ?thesis by (rule disjI1)
  next
    assume "\<exists>drums bass harmony melody mid.
         run m b tempo g =
           Inr ([(''Drums'', drums), (''Bass'', bass), (''Harmony'', harmony), (''Melody'', melody)], mid)
       \<and> notes_within 24 113 bass \<and> notes_within 36 118 melody"
    then obtain drums bass harmony melody mid where
      r: "run m b tempo g =
           Inr ([(''Drums'', drums), (''Bass'', bass), (''Harmony'', harmony), (''Melody'', melody)], mid)"
      and bs: "notes_within 24 113 bass" and ml: "notes_within 36 118 melody"
      by blast
    have "notes_within 0 127 bass" by (rule notes_within_mono [OF bs]) simp_all
    moreover have "notes_within 0 127 melody" by (rule notes_within_mono [OF ml]) simp_all
    ultimately show ?thesis using r by blast
  qed
qed

text \<open>
  Claim C9, as amended. No generator clamps or rejects a pitch, and the track writer copies
  it into its message as it is: on the triad (0, 4, 7) the Bass generator emits the note -12,
  and on the scale (120, 122, 124) the Melody generator emits the note 132. On the chords
  and the scale that a run itself builds, every Bass pitch lies in 24..113 and every Melody
  pitch in 36..118, so a run emits no pitch outside 0..127.
\<close>

theorem pitches_unclamped_yet_in_range:
  assumes "tempo \<noteq> 0"
  shows "(\<exists>drums bass harmony melody mid.
           run m b tempo g =
             Inr ([(''Drums'', drums), (''Bass'', bass), (''Harmony'', harmony), (''Melody'', melody)], mid)
         \<and> notes_within 24 113 bass \<and> notes_within 36 118 melody)
   \<and> create_bass_track_chaos [[0, 4, 7]] 4 TICKS_PER_BEAT \<lparr>src = (\<lambda>i. 0), pos = 0\<rparr> =
     Inr ([(0, ''note_on'', - 12, 50, 1), (1920, ''note_off'', - 12, 50, 1)], \<lparr>src = (\<lambda>i. 0), pos = 5\<rparr>)
   \<and> fst (write_track ''Bass'' [(0, ''note_on'', - 12, 50, 1), (1920, ''note_off'', - 12, 50, 1)]
            \<lparr>src = (\<lambda>i. 0), pos = 5\<rparr>) =
       [ProgramChange 0 1 0, Message ''note_on'' (- 12) 50 0 1, Message ''note_off'' (- 12) 50 1920 1,
        EndOfTrack 0]
   \<and> create_melody_track_chaos [[60, 64, 67]] [120, 122, 124] 4 TICKS_PER_BEAT \<lparr>src = (\<lambda>i. 0), pos = 0\<rparr> =
     Inr ([(0, ''note_on'', 132, 60, 0), (480, ''note_off'', 132, 60, 0),
           (480, ''note_on'', 132, 60, 0), (720, ''note_off'', 132, 60, 0)],
          \<lparr>src = (\<lambda>i. 0), pos = 12\<rparr>)"
proof -
  from run_pitch_range [of tempo m b g] assms
  have r: "\<exists>drums bass harmony melody mid.
           run m b tempo g =
             Inr ([(''Drums'', drums), (''Bass'', bass), (''Harmony'', harmony), (''Melody'', melody)], mid)
         \<and> notes_within 24 113 bass \<and> notes_within 36 118 melody"
    by blast
  have a: "create_bass_track_chaos [[0, 4, 7]] 4 TICKS_PER_BEAT \<lparr>src = (\<lambda>i. 0), pos = 0\<rparr> =
     Inr ([(0, ''note_on'', - 12, 50, 1), (1920, ''note_off'', - 12, 50, 1)], \<lparr>src = (\<lambda>i. 0), pos = 5\<rparr>)"
    by (simp add: create_bass_track_chaos_def TICKS_PER_BEAT_def random_randint_def draw_eval
        bass_chord_def bass_sub_tick_length_def random_random_def random_choice_def
        float_0_7_def float_0_5_def add_note_def)
  have b: "fst (write_track ''Bass'' [(0, ''note_on'', - 12, 50, 1), (1920, ''note_off'', - 12, 50, 1)]
            \<lparr>src = (\<lambda>i. 0), pos = 5\<rparr>) =
       [ProgramChange 0 1 0, Message ''note_on'' (- 12) 50 0 1, Message ''note_off'' (- 12) 50 1920 1,
        EndOfTrack 0]"
    by (simp add: write_track_def events_sorted_def random_choice_def draw_eval RANDOM_INSTRUMENTS_def
        add_program_change_def)
  have d: "lsystem_durations 2 = [1, 1 / 2, 1]"
    by (simp add: lsystem_durations_def l_system_def l_system_loop_numeral rewrite_pass_def lsystem_rules_def)
  have c: "create_melody_track_chaos [[60, 64, 67]] [120, 122, 124] 4 TICKS_PER_BEAT \<lparr>src = (\<lambda>i. 0), pos = 0\<rparr> =
     Inr ([(0, ''note_on'', 132, 60, 0), (480, ''note_off'', 132, 60, 0),
           (480, ''note_on'', 132, 60, 0), (720, ''note_off'', 132, 60, 0)],
          \<lparr>src = (\<lambda>i. 0), pos = 12\<rparr>)"
    by (simp add: create_melody_track_chaos_def TICKS_PER_BEAT_def random_randint_def draw_eval d
        phrase_loop_numeral melody_notes_numeral melody_note_def melody_sub_tick_def melody_shift_def
        random_random_def random_choice_def py_index_def py_int_def float_0_2_def add_note_def)
  from r a b c show ?thesis by blast
qed

theorem pitches_unclamped_yet_in_range_witness:
  "(120 :: int) \<noteq> 0
   \<and> (\<exists>drums bass harmony melody mid.
         run 4 4 120 \<lparr>src = (\<lambda>i. 0), pos = 0\<rparr> =
           Inr ([(''Drums'', drums), (''Bass'', bass), (''Harmony'', harmony), (''Melody'', melody)], mid)
       \<and> notes_within 24 113 bass \<and> notes_within 36 118 melody)"
proof -
  have h: "(120 :: int) \<noteq> 0" by simp
  from pitches_unclamped_yet_in_range [OF h, of 4 4 "\<lparr>src = (\<lambda>i. 0), pos = 0\<rparr>"]
  have "\<exists>drums bass harmony melody mid.
         run 4 4 120 \<lparr>src = (\<lambda>i. 0), pos = 0\<rparr> =
           Inr ([(''Drums'', drums), (''Bass'', bass), (''Harmony'', harmony), (''Melody'', melody)], mid)
       \<and> notes_within 24 113 bass \<and> notes_within 36 118 melody"
    by (rule conjunct1)
  with h show ?thesis by (rule conjI)
qed

section \<open>Determinism\<close>

text \<open>
  Every function that consumes random draws maps sources with the same draws to come to
  equal results and to sources that again have the same draws to come. The facts are stated
  with the relators of the function, product and sum types, so that each one follows from
  those of the functions it calls.
\<close>

lemma draw_transfer [transfer_rule]:
  "rel_fun same_draws (rel_prod (=) same_draws) draw draw"
proof (rule rel_funI)
  fix g1 g2 assume s: "same_draws g1 g2"
  have a: "src g1 (pos g1) = src g2 (pos g2)"
    using s [unfolded same_draws_def, rule_format, of 0] by simp
  have b: "same_draws (g1\<lparr>pos := Suc (pos g1)\<rparr>) (g2\<lparr>pos := Suc (pos g2)\<rparr>)"
    unfolding same_draws_def
  proof
    fix k
    show "src (g1\<lparr>pos := Suc (pos g1)\<rparr>) (pos (g1\<lparr>pos := Suc (pos g1)\<rparr>) + k) =
          src (g2\<lparr>pos := Suc (pos g2)\<rparr>) (pos (g2\<lparr>pos := Suc (pos g2)\<rparr>) + k)"
      using s [unfolded same_draws_def, rule_format, of "Suc k"] by simp
  qed
  show "rel_prod (=) same_draws (draw g1) (draw g2)"
    using a b by (simp add: draw_def)
qed

lemma random_random_transfer [transfer_rule]:
  "rel_fun same_draws (rel_prod (=) same_draws)
     random_random random_random"
  unfolding random_random_def by transfer_prover

lemma random_randint_transfer [transfer_rule]:
  "rel_fun (=) (rel_fun (=) (rel_fun same_draws (rel_prod (=) same_draws)))
     random_randint random_randint"
  unfolding random_randint_def by transfer_prover

lemma random_choice_transfer [transfer_rule]:
  "rel_fun (=) (rel_fun same_draws (rel_prod (=) same_draws))
     random_choice random_choice"
  unfolding random_choice_def by transfer_prover

lemma shuffle_from_step:
  assumes [transfer_rule]:
    "rel_fun (=) (rel_fun same_draws (rel_prod (=) same_draws))
       (shuffle_from n :: int list \<Rightarrow> _) (shuffle_from n)"
  shows "rel_fun (=) (rel_fun same_draws (rel_prod (=) same_draws))
       (shuffle_from (Suc n) :: int list \<Rightarrow> _) (shuffle_from (Suc n))"
  unfolding shuffle_from.simps(2) [abs_def] by transfer_prover

lemma shuffle_from_all:
  "rel_fun (=) (rel_fun same_draws (rel_prod (=) same_draws))
     (shuffle_from n :: int list \<Rightarrow> _) (shuffle_from n)"
  apply (rule nat.induct [where P = "\<lambda>n. rel_fun (=) (rel_fun same_draws (rel_prod (=) same_draws))
           (shuffle_from n :: int list \<Rightarrow> _) (shuffle_from n)"])
   apply (intro rel_funI, simp)
  apply (erule shuffle_from_step)
  done

lemma shuffle_from_transfer [transfer_rule]:
  "rel_fun (=) (rel_fun (=) (rel_fun same_draws (rel_prod (=) same_draws)))
     (shuffle_from :: nat \<Rightarrow> int list \<Rightarrow> _) shuffle_from"
  by (rule rel_funI, hypsubst, rule shuffle_from_all)

lemma random_shuffle_transfer [transfer_rule]:
  "rel_fun (=) (rel_fun same_draws (rel_prod (=) same_draws))
     (random_shuffle :: int list \<Rightarrow> _) random_shuffle"
  unfolding random_shuffle_def by transfer_prover

lemma build_triads_transfer [transfer_rule]:
  "rel_fun (=) (rel_fun same_draws (rel_prod (=) same_draws))
     build_triads build_triads"
  unfolding build_triads_def by transfer_prover

lemma chords_loop_step:
  assumes [transfer_rule]:
    "rel_fun (=) (rel_fun (=) (rel_fun (=) (rel_fun same_draws (rel_prod (=) same_draws))))
       (chords_loop n) (chords_loop n)"
  shows "rel_fun (=) (rel_fun (=) (rel_fun (=) (rel_fun same_draws (rel_prod (=) same_draws))))
       (chords_loop (Suc n)) (chords_loop (Suc n))"
  unfolding chords_loop.simps(2) [abs_def] by transfer_prover

lemma chords_loop_all:
  "rel_fun (=) (rel_fun (=) (rel_fun (=) (rel_fun same_draws (rel_prod (=) same_draws))))
     (chords_loop n) (chords_loop n)"
  apply (rule nat.induct [where P = "\<lambda>n. rel_fun (=) (rel_fun (=) (rel_fun (=) (rel_fun same_draws (rel_prod (=)
           same_draws))))
           (chords_loop n) (chords_loop n)"])
   apply (intro rel_funI, simp)
  apply (erule chords_loop_step)
  done

lemma chords_loop_transfer [transfer_rule]:
  "rel_fun (=) (rel_fun (=) (rel_fun (=) (rel_fun (=) (rel_fun same_draws (rel_prod (=)
    same_draws)))))
     chords_loop chords_loop"
  by (rule rel_funI, hypsubst, rule chords_loop_all)

lemma get_random_chord_progression_transfer [transfer_rule]:
  "rel_fun (=) (rel_fun same_draws (rel_prod (=) same_draws))
     get_random_chord_progression get_random_chord_progression"
  unfolding get_random_chord_progression_def by transfer_prover

lemma drum_hits_step:
  assumes [transfer_rule]:
    "rel_fun (=) (rel_fun (=) (rel_fun (=) (rel_fun (=) (rel_fun same_draws (rel_prod (=)
       same_draws)))))
       (drum_hits n) (drum_hits n)"
  shows "rel_fun (=) (rel_fun (=) (rel_fun (=) (rel_fun (=) (rel_fun same_draws (rel_prod (=)
       same_draws)))))
       (drum_hits (Suc n)) (drum_hits (Suc n))"
  unfolding drum_hits.simps(2) [abs_def] by transfer_prover

lemma drum_hits_all:
  "rel_fun (=) (rel_fun (=) (rel_fun (=) (rel_fun (=) (rel_fun same_draws (rel_prod (=)
    same_draws)))))
     (drum_hits n) (drum_hits n)"
  apply (rule nat.induct [where P = "\<lambda>n. rel_fun (=) (rel_fun (=) (rel_fun (=) (rel_fun (=) (rel_fun same_draws (rel_prod (=)
           same_draws)))))
           (drum_hits n) (drum_hits n)"])
   apply (intro rel_funI, simp)
  apply (erule drum_hits_step)
  done

lemma drum_hits_transfer [transfer_rule]:
  "rel_fun (=) (rel_fun (=) (rel_fun (=) (rel_fun (=) (rel_fun (=) (rel_fun same_draws
    (rel_prod (=) same_draws))))))
     drum_hits drum_hits"
  by (rule rel_funI, hypsubst, rule drum_hits_all)

lemma drum_measures_step:
  assumes [transfer_rule]:
    "rel_fun (=) (rel_fun (=) (rel_fun (=) (rel_fun same_draws (rel_prod (=) same_draws))))
       (drum_measures xs) (drum_measures xs)"
  shows "rel_fun (=) (rel_fun (=) (rel_fun (=) (rel_fun same_draws (rel_prod (=) same_draws))))
       (drum_measures (x # xs)) (drum_measures (x # xs))"
  unfolding drum_measures.simps(2) [abs_def] by transfer_prover

lemma drum_measures_all:
  "rel_fun (=) (rel_fun (=) (rel_fun (=) (rel_fun same_draws (rel_prod (=) same_draws))))
     (drum_measures xs) (drum_measures xs)"
  apply (rule list.induct [where P = "\<lambda>xs. rel_fun (=) (rel_fun (=) (rel_fun (=) (rel_fun same_draws (rel_prod (=)
           same_draws))))
           (drum_measures xs) (drum_measures xs)"])
   apply (intro rel_funI, simp)
  apply (erule drum_measures_step)
  done

lemma drum_measures_transfer [transfer_rule]:
  "rel_fun (=) (rel_fun (=) (rel_fun (=) (rel_fun (=) (rel_fun same_draws (rel_prod (=)
    same_draws)))))
     drum_measures drum_measures"
  by (rule rel_funI, hypsubst, rule drum_measures_all)

lemma create_drum_track_chaos_transfer [transfer_rule]:
  "rel_fun (=) (rel_fun (=) (rel_fun (=) (rel_fun same_draws (rel_prod (=) same_draws))))
     create_drum_track_chaos create_drum_track_chaos"
  unfolding create_drum_track_chaos_def by transfer_prover

lemma bass_slots_step:
  assumes [transfer_rule]:
    "rel_fun (=) (rel_fun (=) (rel_fun (=) (rel_fun (=) (rel_fun (=) (rel_fun same_draws
       (rel_prod (=) same_draws))))))
       (bass_slots n) (bass_slots n)"
  shows "rel_fun (=) (rel_fun (=) (rel_fun (=) (rel_fun (=) (rel_fun (=) (rel_fun same_draws
       (rel_prod (=) same_draws))))))
       (bass_slots (Suc n)) (bass_slots (Suc n))"
  unfolding bass_slots.simps(2) [abs_def] by transfer_prover

lemma bass_slots_all:
  "rel_fun (=) (rel_fun (=) (rel_fun (=) (rel_fun (=) (rel_fun (=) (rel_fun same_draws
    (rel_prod (=) same_draws))))))
     (bass_slots n) (bass_slots n)"
  apply (rule nat.induct [where P = "\<lambda>n. rel_fun (=) (rel_fun (=) (rel_fun (=) (rel_fun (=) (rel_fun (=) (rel_fun same_draws
           (rel_prod (=) same_draws))))))
           (bass_slots n) (bass_slots n)"])
   apply (intro rel_funI, simp)
  apply (erule bass_slots_step)
  done

lemma bass_slots_transfer [transfer_rule]:
  "rel_fun (=) (rel_fun (=) (rel_fun (=) (rel_fun (=) (rel_fun (=) (rel_fun (=) (rel_fun
    same_draws (rel_prod (=) same_draws)))))))
     bass_slots bass_slots"
  by (rule rel_funI, hypsubst, rule bass_slots_all)

lemma bass_chord_transfer [transfer_rule]:
  "rel_fun (=) (rel_fun (=) (rel_fun (=) (rel_fun (=) (rel_fun (=) (rel_fun (=) (rel_fun
    same_draws (rel_prod (=) same_draws)))))))
     bass_chord bass_chord"
  unfolding bass_chord_def by transfer_prover

lemma bass_chords_step:
  assumes [transfer_rule]:
    "rel_fun (=) (rel_fun (=) (rel_fun (=) (rel_fun (=) (rel_fun same_draws (rel_sum (=)
       (rel_prod (=) same_draws))))))
       (bass_chords xs) (bass_chords xs)"
  shows "rel_fun (=) (rel_fun (=) (rel_fun (=) (rel_fun (=) (rel_fun same_draws (rel_sum (=)
       (rel_prod (=) same_draws))))))
       (bass_chords (x # xs)) (bass_chords (x # xs))"
  unfolding bass_chords.simps(2) [abs_def] by transfer_prover

lemma bass_chords_all:
  "rel_fun (=) (rel_fun (=) (rel_fun (=) (rel_fun (=) (rel_fun same_draws (rel_sum (=)
    (rel_prod (=) same_draws))))))
     (bass_chords xs) (bass_chords xs)"
  apply (rule list.induct [where P = "\<lambda>xs. rel_fun (=) (rel_fun (=) (rel_fun (=) (rel_fun (=) (rel_fun same_draws (rel_sum (=)
           (rel_prod (=) same_draws))))))
           (bass_chords xs) (bass_chords xs)"])
   apply (intro rel_funI, simp)
  apply (erule bass_chords_step)
  done

lemma bass_chords_transfer [transfer_rule]:
  "rel_fun (=) (rel_fun (=) (rel_fun (=) (rel_fun (=) (rel_fun (=) (rel_fun same_draws (rel_sum
    (=) (rel_prod (=) same_draws)))))))
     bass_chords bass_chords"
  by (rule rel_funI, hypsubst, rule bass_chords_all)

lemma create_bass_track_chaos_transfer [transfer_rule]:
  "rel_fun (=) (rel_fun (=) (rel_fun (=) (rel_fun same_draws (rel_sum (=) (rel_prod (=)
    same_draws)))))
     create_bass_track_chaos create_bass_track_chaos"
  unfolding create_bass_track_chaos_def by transfer_prover

lemma harmony_notes_step:
  assumes [transfer_rule]:
    "rel_fun (=) (rel_fun (=) (rel_fun (=) (rel_fun (=) (rel_fun same_draws (rel_prod (=)
       (rel_prod (=) same_draws))))))
       (harmony_notes xs) (harmony_notes xs)"
  shows "rel_fun (=) (rel_fun (=) (rel_fun (=) (rel_fun (=) (rel_fun same_draws (rel_prod (=)
       (rel_prod (=) same_draws))))))
       (harmony_notes (x # xs)) (harmony_notes (x # xs))"
  unfolding harmony_notes.simps(2) [abs_def] by transfer_prover

lemma harmony_notes_all:
  "rel_fun (=) (rel_fun (=) (rel_fun (=) (rel_fun (=) (rel_fun same_draws (rel_prod (=)
    (rel_prod (=) same_draws))))))
     (harmony_notes xs) (harmony_notes xs)"
  apply (rule list.induct [where P = "\<lambda>xs. rel_fun (=) (rel_fun (=) (rel_fun (=) (rel_fun (=) (rel_fun same_draws (rel_prod (=)
           (rel_prod (=) same_draws))))))
           (harmony_notes xs) (harmony_notes xs)"])
   apply (intro rel_funI, simp)
  apply (erule harmony_notes_step)
  done

lemma harmony_notes_transfer [transfer_rule]:
  "rel_fun (=) (rel_fun (=) (rel_fun (=) (rel_fun (=) (rel_fun (=) (rel_fun same_draws
    (rel_prod (=) (rel_prod (=) same_draws)))))))
     harmony_notes harmony_notes"
  by (rule rel_funI, hypsubst, rule harmony_notes_all)

lemma harmony_presses_step:
  assumes [transfer_rule]:
    "rel_fun (=) (rel_fun (=) (rel_fun (=) (rel_fun (=) (rel_fun same_draws (rel_prod (=)
       same_draws)))))
       (harmony_presses n) (harmony_presses n)"
  shows "rel_fun (=) (rel_fun (=) (rel_fun (=) (rel_fun (=) (rel_fun same_draws (rel_prod (=)
       same_draws)))))
       (harmony_presses (Suc n)) (harmony_presses (Suc n))"
  unfolding harmony_presses.simps(2) [abs_def] by transfer_prover

lemma harmony_presses_all:
  "rel_fun (=) (rel_fun (=) (rel_fun (=) (rel_fun (=) (rel_fun same_draws (rel_prod (=)
    same_draws)))))
     (harmony_presses n) (harmony_presses n)"
  apply (rule nat.induct [where P = "\<lambda>n. rel_fun (=) (rel_fun (=) (rel_fun (=) (rel_fun (=) (rel_fun same_draws (rel_prod (=)
           same_draws)))))
           (harmony_presses n) (harmony_presses n)"])
   apply (intro rel_funI, simp)
  apply (erule harmony_presses_step)
  done

lemma harmony_presses_transfer [transfer_rule]:
  "rel_fun (=) (rel_fun (=) (rel_fun (=) (rel_fun (=) (rel_fun (=) (rel_fun same_draws
    (rel_prod (=) same_draws))))))
     harmony_presses harmony_presses"
  by (rule rel_funI, hypsubst, rule harmony_presses_all)

lemma harmony_chord_transfer [transfer_rule]:
  "rel_fun (=) (rel_fun (=) (rel_fun (=) (rel_fun (=) (rel_fun (=) (rel_fun same_draws (rel_sum
    (=) (rel_prod (=) same_draws)))))))
     harmony_chord harmony_chord"
  unfolding harmony_chord_def by transfer_prover

lemma harmony_chords_step:
  assumes [transfer_rule]:
    "rel_fun (=) (rel_fun (=) (rel_fun (=) (rel_fun (=) (rel_fun same_draws (rel_sum (=)
       (rel_prod (=) same_draws))))))
       (harmony_chords xs) (harmony_chords xs)"
  shows "rel_fun (=) (rel_fun (=) (rel_fun (=) (rel_fun (=) (rel_fun same_draws (rel_sum (=)
       (rel_prod (=) same_draws))))))
       (harmony_chords (x # xs)) (harmony_chords (x # xs))"
  unfolding harmony_chords.simps(2) [abs_def] by transfer_prover

lemma harmony_chords_all:
  "rel_fun (=) (rel_fun (=) (rel_fun (=) (rel_fun (=) (rel_fun same_draws (rel_sum (=)
    (rel_prod (=) same_draws))))))
     (harmony_chords xs) (harmony_chords xs)"
  apply (rule list.induct [where P = "\<lambda>xs. rel_fun (=) (rel_fun (=) (rel_fun (=) (rel_fun (=) (rel_fun same_draws (rel_sum (=)
           (rel_prod (=) same_draws))))))
           (harmony_chords xs) (harmony_chords xs)"])
   apply (intro rel_funI, simp)
  apply (erule harmony_chords_step)
  done

lemma harmony_chords_transfer [transfer_rule]:
  "rel_fun (=) (rel_fun (=) (rel_fun (=) (rel_fun (=) (rel_fun (=) (rel_fun same_draws (rel_sum
    (=) (rel_prod (=) same_draws)))))))
     harmony_chords harmony_chords"
  by (rule rel_funI, hypsubst, rule harmony_chords_all)

lemma create_harmony_track_chaos_transfer [transfer_rule]:
  "rel_fun (=) (rel_fun (=) (rel_fun (=) (rel_fun same_draws (rel_sum (=) (rel_prod (=)
    same_draws)))))
     create_harmony_track_chaos create_harmony_track_chaos"
  unfolding create_harmony_track_chaos_def by transfer_prover

lemma phrase_loop_step:
  assumes [transfer_rule]:
    "rel_fun (=) (rel_fun (=) (rel_fun same_draws (rel_sum (=) (rel_prod (=) same_draws))))
       (phrase_loop n) (phrase_loop n)"
  shows "rel_fun (=) (rel_fun (=) (rel_fun same_draws (rel_sum (=) (rel_prod (=) same_draws))))
       (phrase_loop (Suc n)) (phrase_loop (Suc n))"
  unfolding phrase_loop.simps(2) [abs_def] by transfer_prover

lemma phrase_loop_all:
  "rel_fun (=) (rel_fun (=) (rel_fun same_draws (rel_sum (=) (rel_prod (=) same_draws))))
     (phrase_loop n) (phrase_loop n)"
  apply (rule nat.induct [where P = "\<lambda>n. rel_fun (=) (rel_fun (=) (rel_fun same_draws (rel_sum (=) (rel_prod (=)
           same_draws))))
           (phrase_loop n) (phrase_loop n)"])
   apply (intro rel_funI, simp)
  apply (erule phrase_loop_step)
  done

lemma phrase_loop_transfer [transfer_rule]:
  "rel_fun (=) (rel_fun (=) (rel_fun (=) (rel_fun same_draws (rel_sum (=) (rel_prod (=)
    same_draws)))))
     phrase_loop phrase_loop"
  by (rule rel_funI, hypsubst, rule phrase_loop_all)

lemma melody_shift_transfer [transfer_rule]:
  "rel_fun (=) (rel_fun same_draws (rel_prod (=) same_draws))
     melody_shift melody_shift"
  unfolding melody_shift_def by transfer_prover

lemma melody_note_transfer [transfer_rule]:
  "rel_fun (=) (rel_fun (=) (rel_fun (=) (rel_fun (=) (rel_fun (=) (rel_fun (=) (rel_fun (=)
    (rel_fun (=) (rel_fun same_draws (rel_sum (=) (rel_prod (=) (rel_prod (=) (rel_prod (=)
    same_draws))))))))))))
     melody_note melody_note"
  unfolding melody_note_def by transfer_prover

lemma melody_notes_step:
  assumes [transfer_rule]:
    "rel_fun (=) (rel_fun (=) (rel_fun (=) (rel_fun (=) (rel_fun (=) (rel_fun (=) (rel_fun (=)
       (rel_fun (=) (rel_fun same_draws (rel_sum (=) (rel_prod (=) (rel_prod (=) (rel_prod (=)
       same_draws))))))))))))
       (melody_notes n) (melody_notes n)"
  shows "rel_fun (=) (rel_fun (=) (rel_fun (=) (rel_fun (=) (rel_fun (=) (rel_fun (=) (rel_fun (=)
       (rel_fun (=) (rel_fun same_draws (rel_sum (=) (rel_prod (=) (rel_prod (=) (rel_prod (=)
       same_draws))))))))))))
       (melody_notes (Suc n)) (melody_notes (Suc n))"
  unfolding melody_notes.simps(2) [abs_def] by transfer_prover

lemma melody_notes_all:
  "rel_fun (=) (rel_fun (=) (rel_fun (=) (rel_fun (=) (rel_fun (=) (rel_fun (=) (rel_fun (=)
    (rel_fun (=) (rel_fun same_draws (rel_sum (=) (rel_prod (=) (rel_prod (=) (rel_prod (=)
    same_draws))))))))))))
     (melody_notes n) (melody_notes n)"
  apply (rule nat.induct [where P = "\<lambda>n. rel_fun (=) (rel_fun (=) (rel_fun (=) (rel_fun (=) (rel_fun (=) (rel_fun (=) (rel_fun
           (=) (rel_fun (=) (rel_fun same_draws (rel_sum (=) (rel_prod (=) (rel_prod (=)
           (rel_prod (=) same_draws))))))))))))
           (melody_notes n) (melody_notes n)"])
   apply (intro rel_funI, simp)
  apply (erule melody_notes_step)
  done

lemma melody_notes_transfer [transfer_rule]:
  "rel_fun (=) (rel_fun (=) (rel_fun (=) (rel_fun (=) (rel_fun (=) (rel_fun (=) (rel_fun (=)
    (rel_fun (=) (rel_fun (=) (rel_fun same_draws (rel_sum (=) (rel_prod (=) (rel_prod (=)
    (rel_prod (=) same_draws)))))))))))))
     melody_notes melody_notes"
  by (rule rel_funI, hypsubst, rule melody_notes_all)

lemma melody_chords_step:
  assumes [transfer_rule]:
    "rel_fun (=) (rel_fun (=) (rel_fun (=) (rel_fun (=) (rel_fun (=) (rel_fun (=) (rel_fun (=)
       (rel_fun (=) (rel_fun same_draws (rel_sum (=) (rel_prod (=) same_draws))))))))))
       (melody_chords xs) (melody_chords xs)"
  shows "rel_fun (=) (rel_fun (=) (rel_fun (=) (rel_fun (=) (rel_fun (=) (rel_fun (=) (rel_fun (=)
       (rel_fun (=) (rel_fun same_draws (rel_sum (=) (rel_prod (=) same_draws))))))))))
       (melody_chords (x # xs)) (melody_chords (x # xs))"
  unfolding melody_chords.simps(2) [abs_def] by transfer_prover

lemma melody_chords_all:
  "rel_fun (=) (rel_fun (=) (rel_fun (=) (rel_fun (=) (rel_fun (=) (rel_fun (=) (rel_fun (=)
    (rel_fun (=) (rel_fun same_draws (rel_sum (=) (rel_prod (=) same_draws))))))))))
     (melody_chords xs) (melody_chords xs)"
  apply (rule list.induct [where P = "\<lambda>xs. rel_fun (=) (rel_fun (=) (rel_fun (=) (rel_fun (=) (rel_fun (=) (rel_fun (=) (rel_fun
           (=) (rel_fun (=) (rel_fun same_draws (rel_sum (=) (rel_prod (=) same_draws))))))))))
           (melody_chords xs) (melody_chords xs)"])
   apply (intro rel_funI, simp)
  apply (erule melody_chords_step)
  done

lemma melody_chords_transfer [transfer_rule]:
  "rel_fun (=) (rel_fun (=) (rel_fun (=) (rel_fun (=) (rel_fun (=) (rel_fun (=) (rel_fun (=)
    (rel_fun (=) (rel_fun (=) (rel_fun same_draws (rel_sum (=) (rel_prod (=)
    same_draws)))))))))))
     melody_chords melody_chords"
  by (rule rel_funI, hypsubst, rule melody_chords_all)

lemma create_melody_track_chaos_transfer [transfer_rule]:
  "rel_fun (=) (rel_fun (=) (rel_fun (=) (rel_fun (=) (rel_fun same_draws (rel_sum (=)
    (rel_prod (=) same_draws))))))
     create_melody_track_chaos create_melody_track_chaos"
  unfolding create_melody_track_chaos_def by transfer_prover

lemma write_track_transfer [transfer_rule]:
  "rel_fun (=) (rel_fun (=) (rel_fun same_draws (rel_prod (=) same_draws)))
     write_track write_track"
  unfolding write_track_def by transfer_prover

lemma tracks_loop_step:
  assumes [transfer_rule]:
    "rel_fun (=) (rel_fun same_draws (rel_prod (=) same_draws))
       (tracks_loop xs) (tracks_loop xs)"
  shows "rel_fun (=) (rel_fun same_draws (rel_prod (=) same_draws))
       (tracks_loop ((a, b) # xs)) (tracks_loop ((a, b) # xs))"
  unfolding tracks_loop.simps(2) [abs_def] by transfer_prover

lemma tracks_loop_all:
  "rel_fun (=) (rel_fun same_draws (rel_prod (=) same_draws))
     (tracks_loop xs) (tracks_loop xs)"
  apply (rule list.induct [where P = "\<lambda>xs. rel_fun (=) (rel_fun same_draws (rel_prod (=) same_draws))
           (tracks_loop xs) (tracks_loop xs)"])
   apply (intro rel_funI, simp)
  subgoal for x xs by (cases x, hypsubst, erule tracks_loop_step)
  done

lemma tracks_loop_transfer [transfer_rule]:
  "rel_fun (=) (rel_fun (=) (rel_fun same_draws (rel_prod (=) same_draws)))
     tracks_loop tracks_loop"
  by (rule rel_funI, hypsubst, rule tracks_loop_all)

lemma combine_and_write_midi_transfer [transfer_rule]:
  "rel_fun (=) (rel_fun (=) (rel_fun same_draws (rel_sum (=) (rel_prod (=) same_draws))))
     combine_and_write_midi combine_and_write_midi"
  unfolding combine_and_write_midi_def by transfer_prover

lemma run_transfer [transfer_rule]:
  "rel_fun (=) (rel_fun (=) (rel_fun (=) (rel_fun same_draws (=)))) run run"
  unfolding run_def by transfer_prover


lemma rel_prod_same_fst: "rel_prod (=) same_draws x y \<Longrightarrow> fst x = fst y"
  by (simp add: rel_prod_sel)

lemma rel_sum_same_fst:
  "rel_sum (=) (rel_prod (=) same_draws) x y \<Longrightarrow> map_sum id fst x = map_sum id fst y"
  by (cases x; cases y) (simp_all add: rel_prod_sel)

text \<open>
  Claim C10. Generation is a function of the inputs and of the sequence of draws to come:
  from two random sources with the same draws to come, whatever their past, the chord
  builder, the four generators and the serializer give the same chords and label, the same
  event lists (or the same error) and the same file object, and so does the whole run.
\<close>

theorem generation_deterministic:
  assumes "same_draws g1 g2"
  shows "fst (get_random_chord_progression m g1) = fst (get_random_chord_progression m g2)
       \<and> fst (create_drum_track_chaos m b tpb g1) = fst (create_drum_track_chaos m b tpb g2)
       \<and> map_sum id fst (create_bass_track_chaos chords bpc tpb g1) =
           map_sum id fst (create_bass_track_chaos chords bpc tpb g2)
       \<and> map_sum id fst (create_harmony_track_chaos chords bpc tpb g1) =
           map_sum id fst (create_harmony_track_chaos chords bpc tpb g2)
       \<and> map_sum id fst (create_melody_track_chaos chords scale_notes bpc tpb g1) =
           map_sum id fst (create_melody_track_chaos chords scale_notes bpc tpb g2)
       \<and> map_sum id fst (combine_and_write_midi tracks_dict tempo g1) =
           map_sum id fst (combine_and_write_midi tracks_dict tempo g2)
       \<and> run m b tempo g1 = run m b tempo g2"
proof -
  have a: "fst (get_random_chord_progression m g1) = fst (get_random_chord_progression m g2)"
    by (rule rel_prod_same_fst)
       (rule get_random_chord_progression_transfer [THEN rel_funD, OF refl, THEN rel_funD, OF assms])
  have b: "fst (create_drum_track_chaos m b tpb g1) = fst (create_drum_track_chaos m b tpb g2)"
    by (rule rel_prod_same_fst)
       (rule create_drum_track_chaos_transfer [THEN rel_funD, OF refl, THEN rel_funD, OF refl,
          THEN rel_funD, OF refl, THEN rel_funD, OF assms])
  have c: "map_sum id fst (create_bass_track_chaos chords bpc tpb g1) =
           map_sum id fst (create_bass_track_chaos chords bpc tpb g2)"
    by (rule rel_sum_same_fst)
       (rule create_bass_track_chaos_transfer [THEN rel_funD, OF refl, THEN rel_funD, OF refl,
          THEN rel_funD, OF refl, THEN rel_funD, OF assms])
  have d: "map_sum id fst (create_harmony_track_chaos chords bpc tpb g1) =
           map_sum id fst (create_harmony_track_chaos chords bpc tpb g2)"
    by (rule rel_sum_same_fst)
       (rule create_harmony_track_chaos_transfer [THEN rel_funD, OF refl, THEN rel_funD, OF refl,
          THEN rel_funD, OF refl, THEN rel_funD, OF assms])
  have e: "map_sum id fst (create_melody_track_chaos chords scale_notes bpc tpb g1) =
           map_sum id fst (create_melody_track_chaos chords scale_notes bpc tpb g2)"
    by (rule rel_sum_same_fst)
       (rule create_melody_track_chaos_transfer [THEN rel_funD, OF refl, THEN rel_funD, OF refl,
          THEN rel_funD, OF refl, THEN rel_funD, OF refl, THEN rel_funD, OF assms])
  have f: "map_sum id fst (combine_and_write_midi tracks_dict tempo g1) =
           map_sum id fst (combine_and_write_midi tracks_dict tempo g2)"
    by (rule rel_sum_same_fst)
       (rule combine_and_write_midi_transfer [THEN rel_funD, OF refl, THEN rel_funD, OF refl,
          THEN rel_funD, OF assms])
  have g: "run m b tempo g1 = run m b tempo g2"
    by (rule run_transfer [THEN rel_funD, OF refl, THEN rel_funD, OF refl,
          THEN rel_funD, OF refl, THEN rel_funD, OF assms])
  from a b c d e f g show ?thesis by blast
qed

theorem generation_deterministic_witness:
  "same_draws \<lparr>src = (\<lambda>i. 0), pos = 0\<rparr> \<lparr>src = (\<lambda>i. if i < 3 then 7 else 0), pos = 3\<rparr>
   \<and> run 4 4 120 \<lparr>src = (\<lambda>i. 0), pos = 0\<rparr> =
       run 4 4 120 \<lparr>src = (\<lambda>i. if i < 3 then 7 else 0), pos = 3\<rparr>
   \<and> fst (create_drum_track_chaos 0 4 480 \<lparr>src = (\<lambda>i. 0), pos = 0\<rparr>) = []"
proof -
  have h: "same_draws \<lparr>src = (\<lambda>i. 0), pos = 0\<rparr> \<lparr>src = (\<lambda>i. if i < 3 then 7 else 0), pos = 3\<rparr>"
    by (simp add: same_draws_def)
  have e: "fst (create_drum_track_chaos 0 4 480 \<lparr>src = (\<lambda>i. 0), pos = 0\<rparr>) = []"
    by (simp add: create_drum_track_chaos_def)
  from generation_deterministic [OF h, of 4 4 480 "[]" 4 "[]" "[]" 120]
  have "run 4 4 120 \<lparr>src = (\<lambda>i. 0), pos = 0\<rparr> =
        run 4 4 120 \<lparr>src = (\<lambda>i. if i < 3 then 7 else 0), pos = 3\<rparr>"
    by blast
  with h e show ?thesis by blast
qed

end
